theory Spec2Isabelle
  imports Main
begin

section \<open>JavaScript values, exceptions and object identity\<close>

text \<open>
  A thrown exception is a value: a function that can throw returns
  \<open>exn + 'a\<close>, with \<open>Inl\<close> for the throw. \<open>TypeError\<close> is what the
  runtime throws on a property read of \<open>undefined\<close>; \<open>Thrown\<close> carries the
  message of an error raised by code outside the repository (the GraphQL
  parser, a scalar's \<open>parseValue\<close>, \<open>JSON.parse\<close>).
\<close>

datatype exn = TypeError | Thrown string

definition try_catch :: "exn + 'a \<Rightarrow> (exn \<Rightarrow> exn + 'a) \<Rightarrow> exn + 'a" where
  "try_catch body handler = (case body of Inl e \<Rightarrow> handler e | Inr v \<Rightarrow> Inr v)"

text \<open>
  The values that \<open>parseValue\<close> and \<open>JSON.parse\<close> hand back. The program
  observes only their truthiness, their \<open>typeof\<close> and \<open>String(v)\<close>, so a number
  is represented by its \<open>String\<close> form (\<open>''0''\<close> for both zeros, \<open>''NaN''\<close>),
  and an object by what \<open>String\<close> does on it.
\<close>

datatype js_value =
    JSUndefined
  | JSNull
  | JSBoolean bool
  | JSNumber string
  | JSString string
  | JSObject "exn + string"

fun truthy :: "js_value \<Rightarrow> bool" where
  "truthy JSUndefined = False"
| "truthy JSNull = False"
| "truthy (JSBoolean b) = b"
| "truthy (JSNumber s) = (s \<noteq> ''0'' \<and> s \<noteq> ''NaN'')"
| "truthy (JSString s) = (s \<noteq> [])"
| "truthy (JSObject _) = True"

fun js_String :: "js_value \<Rightarrow> exn + string" where
  "js_String JSUndefined = Inr ''undefined''"
| "js_String JSNull = Inr ''null''"
| "js_String (JSBoolean b) = Inr (if b then ''true'' else ''false'')"
| "js_String (JSNumber s) = Inr s"
| "js_String (JSString s) = Inr s"
| "js_String (JSObject r) = r"

text \<open>
  Syntax-tree nodes are never mutated, only compared with \<open>===\<close> and
  \<open>!==\<close>. A node that takes part in such a comparison therefore carries the
  address of its object; two nodes are the same object iff their addresses
  are equal, whatever their contents.
\<close>

type_synonym ref = nat

section \<open>Schema entities\<close>

text \<open>
  The types of the \<open>graphql\<close> library. Named composite types refer to their
  fields by name (a schema may be cyclic); an enum carries the names of its
  values in declared order (\<open>getValues()\<close>).
\<close>

datatype gql_type =
    ScalarType string
  | EnumType string "string list"
  | ObjectType string
  | InterfaceType string
  | UnionType string
  | InputObjectType string
  | ListType gql_type
  | NonNullType gql_type

fun isScalarType :: "gql_type \<Rightarrow> bool" where
  "isScalarType (ScalarType _) = True"
| "isScalarType _ = False"

fun isEnumType :: "gql_type \<Rightarrow> bool" where
  "isEnumType (EnumType _ _) = True"
| "isEnumType _ = False"

fun isInputObjectType :: "gql_type \<Rightarrow> bool" where
  "isInputObjectType (InputObjectType _) = True"
| "isInputObjectType _ = False"

fun isNonNullType :: "gql_type \<Rightarrow> bool" where
  "isNonNullType (NonNullType _) = True"
| "isNonNullType _ = False"

fun isListType :: "gql_type \<Rightarrow> bool" where
  "isListType (ListType _) = True"
| "isListType _ = False"

definition isWrappingType :: "gql_type \<Rightarrow> bool" where
  "isWrappingType t = (isListType t \<or> isNonNullType t)"

definition isLeafType :: "gql_type \<Rightarrow> bool" where
  "isLeafType t = (isScalarType t \<or> isEnumType t)"

text \<open>\<open>type.name\<close>: a wrapping type has no such property (\<open>undefined\<close>).\<close>

fun type_name :: "gql_type \<Rightarrow> string option" where
  "type_name (ScalarType n) = Some n"
| "type_name (EnumType n _) = Some n"
| "type_name (ObjectType n) = Some n"
| "type_name (InterfaceType n) = Some n"
| "type_name (UnionType n) = Some n"
| "type_name (InputObjectType n) = Some n"
| "type_name (ListType _) = None"
| "type_name (NonNullType _) = None"

fun ofType :: "gql_type \<Rightarrow> gql_type" where
  "ofType (ListType t) = t"
| "ofType (NonNullType t) = t"
| "ofType t = t"

text \<open>
  \<open>GraphQLArgument\<close> and \<open>GraphQLInputField\<close> have the same shape: the
  properties \<open>name\<close>, \<open>type\<close> and \<open>defaultValue\<close>. A missing default is
  \<open>arg_defaultValue = JSUndefined\<close>.
\<close>

record input_field =
  arg_name :: string
  arg_type :: gql_type
  arg_defaultValue :: js_value

record gql_field =
  field_name :: string
  field_type :: gql_type
  field_args :: "input_field list"

text \<open>
  \<open>getFields()\<close> returns an object used as an ordered map from field name to
  field: an association list in declared order, with distinct keys.
\<close>

record object_type =
  ot_name :: string
  getFields :: "(string \<times> gql_field) list"

text \<open>The fields of the input object types, by type name.\<close>

type_synonym schema = "string \<Rightarrow> (string \<times> input_field) list"

section \<open>Document entities\<close>

datatype value_node =
    StringValue string
  | IntValue string
  | FloatValue string
  | BooleanValue bool
  | EnumValue string
  | Variable string
  | NullValue
  | ListValue "value_node list"
  | ObjectValue "object_field_node list"
and object_field_node =
    ObjectField (of_name: string) (of_value: value_node)

datatype argument_node = Argument (an_name: string) (an_value: value_node)

datatype directive_node = Directive string "argument_node list"

text \<open>
  A selection. The properties of a \<open>Field\<close> are in the order of the object
  literals of the source: alias, arguments, directives, name, selectionSet;
  an absent property is \<open>None\<close>. The parser is called with \<open>noLocation\<close>, so
  there is no \<open>loc\<close>.
\<close>

datatype selection_node =
    FieldNode (sel_ref: ref) (field_alias: "string option") (arguments: "argument_node list option")
      (directives: "directive_node list option") (name_value: string)
      (selectionSet: "selection_node list option")
  | FragmentSpreadNode (sel_ref: ref) string "directive_node list option"
  | InlineFragmentNode (sel_ref: ref) "string option" "directive_node list option"
      "selection_node list"

datatype operation_type = Query | Mutation | Subscription

datatype variable_definition = VariableDefinition string string "value_node option"

record operation_definition =
  od_ref :: ref
  od_operation :: operation_type
  od_name :: "string option"
  od_variableDefinitions :: "variable_definition list option"
  od_directives :: "directive_node list option"
  od_selections :: "selection_node list"

datatype definition_node =
    OperationDefinition operation_definition
  | FragmentDefinition ref string string "directive_node list option" "selection_node list"
  | OtherDefinition ref string

record document =
  definitions :: "definition_node list"

fun def_ref :: "definition_node \<Rightarrow> ref" where
  "def_ref (OperationDefinition od) = od_ref od"
| "def_ref (FragmentDefinition r _ _ _ _) = r"
| "def_ref (OtherDefinition r _) = r"

section \<open>Default-selection policy\<close>

text \<open>
  \<open>fields['id']\<close> is a lookup in the ordered map; a field object is truthy,
  so the test is whether the key is present. \<open>Object.keys(fields).forEach\<close>
  visits the keys in declared order and reads \<open>fields[fieldName]\<close>, the
  value stored under the key: the loop runs over the entries of the map,
  pushing onto \<open>leafFieldNames\<close>. \<open>slice(0, 2)\<close> is \<open>take 2\<close>.
\<close>

definition has_field :: "(string \<times> gql_field) list \<Rightarrow> string \<Rightarrow> bool" where
  "has_field fieldMap k = (map_of fieldMap k \<noteq> None)"

definition defaultGetDefaultFieldNames :: "object_type \<Rightarrow> string list" where
  "defaultGetDefaultFieldNames type =
     (let fieldMap = getFields type in
      if has_field fieldMap ''id'' then
        (let res = [''id''] in
         if has_field fieldMap ''email'' then res @ [''email'']
         else if has_field fieldMap ''name'' then res @ [''name'']
         else res)
      else if has_field fieldMap ''edges'' then [''edges'']
      else if has_field fieldMap ''node'' then [''node'']
      else if has_field fieldMap ''nodes'' then [''nodes'']
      else
        (let leafFieldNames =
           fold (\<lambda>(fieldName, f) leafFieldNames.
                   if isLeafType (field_type f) then leafFieldNames @ [fieldName]
                   else leafFieldNames)
             fieldMap []
         in take 2 leafFieldNames))"

section \<open>Required arguments and unwrapping\<close>

definition isRequiredArgument :: "input_field \<Rightarrow> bool" where
  "isRequiredArgument arg = (isNonNullType (arg_type arg) \<and> arg_defaultValue arg = JSUndefined)"

text \<open>The library's \<open>isRequiredInputField\<close> is the same test on an input field.\<close>

definition isRequiredInputField :: "input_field \<Rightarrow> bool" where
  "isRequiredInputField field = (isNonNullType (arg_type field) \<and> arg_defaultValue field = JSUndefined)"

function unwrapOutputType :: "gql_type \<Rightarrow> gql_type" where
  "unwrapOutputType outputType =
     (if isWrappingType outputType then unwrapOutputType (ofType outputType) else outputType)"
  by pat_completeness auto
termination
proof (relation "measure size")
  show "wf (measure size)" by simp
next
  fix outputType :: gql_type
  assume "isWrappingType outputType"
  then show "(ofType outputType, outputType) \<in> measure size"
    by (cases outputType) (simp_all add: isWrappingType_def)
qed

function unwrapInputType :: "gql_type \<Rightarrow> gql_type" where
  "unwrapInputType inputType =
     (if isWrappingType inputType then unwrapInputType (ofType inputType) else inputType)"
  by pat_completeness auto
termination
proof (relation "measure size")
  show "wf (measure size)" by simp
next
  fix inputType :: gql_type
  assume "isWrappingType inputType"
  then show "(ofType inputType, inputType) \<in> measure size"
    by (cases inputType) (simp_all add: isWrappingType_def)
qed

declare unwrapOutputType.simps [simp del]
declare unwrapInputType.simps [simp del]

section \<open>Encoding a raw input as a literal: argValue\<close>

text \<open>
  The methods of the library that \<open>argValue\<close> calls: \<open>argType.parseValue\<close>
  (per type) and \<open>JSON.parse\<close>. Both may throw.
\<close>

record js_env =
  parseValue :: "gql_type \<Rightarrow> string \<Rightarrow> exn + js_value"
  JSON_parse :: "string \<Rightarrow> exn + js_value"

text \<open>\<open>argType.getValues()[0].name\<close>: a \<open>TypeError\<close> when there is no first value.\<close>

fun getValues :: "gql_type \<Rightarrow> string list" where
  "getValues (EnumType _ vs) = vs"
| "getValues _ = []"

definition first_value_name :: "gql_type \<Rightarrow> exn + string" where
  "first_value_name argType =
     (case getValues argType of [] \<Rightarrow> Inl TypeError | v # _ \<Rightarrow> Inr v)"

text \<open>\<open>{kind: K, value: String(argType.parseValue(value))}\<close>\<close>

definition parsed_literal ::
  "js_env \<Rightarrow> (string \<Rightarrow> value_node) \<Rightarrow> gql_type \<Rightarrow> string \<Rightarrow> exn + value_node" where
  "parsed_literal env K argType v =
     (case parseValue env argType v of
        Inl e \<Rightarrow> Inl e
      | Inr parsed \<Rightarrow> (case js_String parsed of Inl e \<Rightarrow> Inl e | Inr s \<Rightarrow> Inr (K s)))"

definition argValue :: "js_env \<Rightarrow> gql_type \<Rightarrow> string \<Rightarrow> exn + value_node" where
  "argValue env argType v =
     (if isScalarType argType then
        try_catch
          (if type_name argType = Some ''String'' then parsed_literal env StringValue argType v
           else if type_name argType = Some ''Float'' then parsed_literal env FloatValue argType v
           else if type_name argType = Some ''Int'' then parsed_literal env IntValue argType v
           else if type_name argType = Some ''Boolean'' then
             try_catch
               (case JSON_parse env v of
                  Inl e \<Rightarrow> Inl e
                | Inr parsed \<Rightarrow>
                    (case parsed of
                       JSBoolean b \<Rightarrow> Inr (BooleanValue b)
                     | _ \<Rightarrow> Inr (BooleanValue False)))
               (\<lambda>e. Inr (BooleanValue False))
           else parsed_literal env StringValue argType v)
          (\<lambda>e. Inr (StringValue v))
      else
        try_catch
          (case parseValue env argType v of
             Inl e \<Rightarrow> Inl e
           | Inr parsedValue \<Rightarrow>
               if truthy parsedValue then
                 (case js_String parsedValue of Inl e \<Rightarrow> Inl e | Inr s \<Rightarrow> Inr (EnumValue s))
               else
                 (case first_value_name argType of Inl e \<Rightarrow> Inl e | Inr n \<Rightarrow> Inr (EnumValue n)))
          (\<lambda>e. case first_value_name argType of Inl e' \<Rightarrow> Inl e' | Inr n \<Rightarrow> Inr (EnumValue n)))"

section \<open>Default values and default arguments\<close>

definition defaultValue :: "gql_type \<Rightarrow> exn + value_node" where
  "defaultValue argType =
     (if isEnumType argType then
        (case first_value_name argType of Inl e \<Rightarrow> Inl e | Inr n \<Rightarrow> Inr (EnumValue n))
      else if type_name argType = Some ''String'' then Inr (StringValue '''')
      else if type_name argType = Some ''Float'' then Inr (FloatValue ''1.5'')
      else if type_name argType = Some ''Int'' then Inr (IntValue ''10'')
      else if type_name argType = Some ''Boolean'' then Inr (BooleanValue False)
      else Inr (StringValue ''''))"

text \<open>
  \<open>fieldType.getFields()\<close> of an input object type, then
  \<open>Object.keys(fields).map(k => fields[k])\<close>: the fields in declared order.
\<close>

definition input_fields_of :: "schema \<Rightarrow> gql_type \<Rightarrow> input_field list" where
  "input_fields_of S t = (case t of InputObjectType n \<Rightarrow> map snd (S n) | _ \<Rightarrow> [])"

text \<open>
  \<open>defaultInputObjectFields\<close> calls itself for a required field of input
  object type, and nothing in the code bounds the nesting: on a schema whose
  required input fields form a cycle it never returns. The first parameter is
  the nesting depth still available; \<open>None\<close> is "did not return within that
  depth". The \<open>for\<close> loop pushes onto \<open>nodes\<close>, the accumulator of
  \<open>defaultInputObjectFields_loop\<close>.
\<close>

fun defaultInputObjectFields ::
    "nat \<Rightarrow> schema \<Rightarrow> input_field list \<Rightarrow> (exn + object_field_node list) option"
  and defaultInputObjectFields_loop ::
    "nat \<Rightarrow> schema \<Rightarrow> object_field_node list \<Rightarrow> input_field list
       \<Rightarrow> (exn + object_field_node list) option" where
  "defaultInputObjectFields depth S inputFields =
     defaultInputObjectFields_loop depth S [] inputFields"
| "defaultInputObjectFields_loop depth S nodes [] = Some (Inr nodes)"
| "defaultInputObjectFields_loop depth S nodes (field # rest) =
     (if isRequiredInputField field then
        (let fieldType = unwrapInputType (arg_type field) in
         if isInputObjectType fieldType then
           (case depth of
              0 \<Rightarrow> None
            | Suc depth' \<Rightarrow>
                (case defaultInputObjectFields depth' S (input_fields_of S fieldType) of
                   None \<Rightarrow> None
                 | Some (Inl e) \<Rightarrow> Some (Inl e)
                 | Some (Inr sub) \<Rightarrow>
                     defaultInputObjectFields_loop depth S
                       (nodes @ [ObjectField (arg_name field) (ObjectValue sub)]) rest))
         else if isLeafType fieldType then
           (case defaultValue fieldType of
              Inl e \<Rightarrow> Some (Inl e)
            | Inr v \<Rightarrow>
                defaultInputObjectFields_loop depth S
                  (nodes @ [ObjectField (arg_name field) v]) rest)
         else defaultInputObjectFields_loop depth S nodes rest)
      else defaultInputObjectFields_loop depth S nodes rest)"

fun defaultArgs_loop ::
  "nat \<Rightarrow> schema \<Rightarrow> argument_node list \<Rightarrow> input_field list
     \<Rightarrow> (exn + argument_node list) option" where
  "defaultArgs_loop depth S args [] = Some (Inr args)"
| "defaultArgs_loop depth S args (arg # rest) =
     (if isRequiredArgument arg then
        (let argType = unwrapInputType (arg_type arg) in
         if isInputObjectType argType then
           (case defaultInputObjectFields depth S (input_fields_of S argType) of
              None \<Rightarrow> None
            | Some (Inl e) \<Rightarrow> Some (Inl e)
            | Some (Inr sub) \<Rightarrow>
                defaultArgs_loop depth S (args @ [Argument (arg_name arg) (ObjectValue sub)]) rest)
         else if isLeafType argType then
           (case defaultValue argType of
              Inl e \<Rightarrow> Some (Inl e)
            | Inr v \<Rightarrow> defaultArgs_loop depth S (args @ [Argument (arg_name arg) v]) rest)
         else defaultArgs_loop depth S args rest)
      else defaultArgs_loop depth S args rest)"

definition defaultArgs :: "nat \<Rightarrow> schema \<Rightarrow> gql_field \<Rightarrow> (exn + argument_node list) option" where
  "defaultArgs depth S field = defaultArgs_loop depth S [] (field_args field)"

section \<open>FieldView: the synchronizer of a schema field\<close>

text \<open>
  The component: its props \<open>field\<close> and \<open>selections\<close>, and its instance
  variable \<open>_previousSelection\<close> (the undo slot; \<open>None\<close> is null or
  undefined). A method returns the component after the call and what it
  passes to \<open>this.props.modifySelections\<close> (\<open>None\<close> when it returns
  without calling it). The names of methods and instance variables are those
  of the source without the leading underscore.
\<close>

record FieldView =
  field :: gql_field
  selections :: "selection_node list"
  previousSelection :: "selection_node option"

text \<open>\<open>selection.kind === 'Field' && this.props.field.name === selection.name.value\<close>\<close>

fun belongs_to :: "gql_field \<Rightarrow> selection_node \<Rightarrow> bool" where
  "belongs_to f (FieldNode _ _ _ _ n _) = (field_name f = n)"
| "belongs_to f _ = False"

fun is_Field :: "selection_node \<Rightarrow> bool" where
  "is_Field (FieldNode _ _ _ _ _ _) = True"
| "is_Field _ = False"

text \<open>\<open>a === b\<close> on a node and a possibly absent node: the same object.\<close>

definition same_selection :: "selection_node \<Rightarrow> selection_node option \<Rightarrow> bool" where
  "same_selection s other = (case other of None \<Rightarrow> False | Some p \<Rightarrow> sel_ref s = sel_ref p)"

definition getSelection :: "FieldView \<Rightarrow> selection_node option" where
  "getSelection this =
     (case find (belongs_to (field this)) (selections this) of
        None \<Rightarrow> None
      | Some selection \<Rightarrow> if is_Field selection then Some selection else None)"

text \<open>
  \<open>_addFieldToSelections\<close>. The object literal is evaluated only when the
  undo slot is empty (\<open>||\<close>); \<open>r\<close> is the address of the object it creates,
  and \<open>depth\<close> and \<open>S\<close> are those of \<open>defaultArgs\<close>.
\<close>

definition addFieldToSelections ::
  "nat \<Rightarrow> schema \<Rightarrow> ref \<Rightarrow> FieldView \<Rightarrow> (exn + FieldView \<times> selection_node list) option" where
  "addFieldToSelections depth S r this =
     (case previousSelection this of
        Some p \<Rightarrow> Some (Inr (this, selections this @ [p]))
      | None \<Rightarrow>
          (case defaultArgs depth S (field this) of
             None \<Rightarrow> None
           | Some (Inl e) \<Rightarrow> Some (Inl e)
           | Some (Inr args) \<Rightarrow>
               Some (Inr (this,
                 selections this @ [FieldNode r None (Some args) None (field_name (field this)) None]))))"

definition removeFieldFromSelections :: "FieldView \<Rightarrow> FieldView \<times> selection_node list" where
  "removeFieldFromSelections this =
     (let previousSelection = getSelection this
      in (this\<lparr>previousSelection := previousSelection\<rparr>,
          filter (\<lambda>selection. \<not> same_selection selection previousSelection) (selections this)))"

text \<open>
  \<open>_setArguments\<close>. The callback of \<open>map\<close> creates an object for each
  element it replaces; \<open>new i\<close> is the address of the one created at
  position \<open>i\<close>.
\<close>

definition setArguments ::
  "(nat \<Rightarrow> ref) \<Rightarrow> FieldView \<Rightarrow> argument_node list \<Rightarrow> FieldView \<times> selection_node list option" where
  "setArguments new this argumentNodes =
     (case getSelection this of
        None \<Rightarrow> (this, None)
      | Some selection \<Rightarrow>
          (this,
           Some (map (\<lambda>(i, s).
                   if same_selection s (Some selection) then
                     FieldNode (new i) (field_alias selection) (Some argumentNodes)
                       (directives selection) (name_value selection) (selectionSet selection)
                   else s)
                 (enumerate 0 (selections this)))))"

section \<open>Document parse memoizer\<close>

text \<open>
  \<open>String.prototype.trim\<close> strips white space and line terminators from
  both ends; on 8-bit characters these are tab, LF, VT, FF, CR, space and
  the no-break space.
\<close>

definition js_whitespace :: "char \<Rightarrow> bool" where
  "js_whitespace c = (of_char c \<in> {9, 10, 11, 12, 13, 32, 160 :: nat})"

definition js_trim :: "string \<Rightarrow> string" where
  "js_trim s = rev (dropWhile js_whitespace (rev (dropWhile js_whitespace s)))"

text \<open>The \<open>?DocumentNode | Error\<close> that \<open>parseQuery\<close> returns.\<close>

datatype parse_outcome = ParsedNull | ParsedError exn | Parsed document

text \<open>
  \<open>parseQuery\<close>: the library's \<open>parse\<close> is a parameter, and may throw. The
  texts handed to it are appended to a log, which makes a call of the parser
  observable.
\<close>

definition parseQuery ::
  "(string \<Rightarrow> exn + document) \<Rightarrow> string list \<Rightarrow> string \<Rightarrow> string list \<times> (exn + parse_outcome)" where
  "parseQuery parse log text =
     (if js_trim text = [] then
        (log, try_catch (Inr ParsedNull) (\<lambda>e. Inr (ParsedError e)))
      else
        (log @ [text],
         try_catch (case parse text of Inl e \<Rightarrow> Inl e | Inr d \<Rightarrow> Inr (Parsed d))
           (\<lambda>e. Inr (ParsedError e))))"

definition DEFAULT_DOCUMENT :: document where
  "DEFAULT_DOCUMENT = \<lparr>definitions = []\<rparr>"

text \<open>The module variable \<open>parseQueryMemoize\<close>, and the log of parser calls.\<close>

record memo_state =
  parseQueryMemoize :: "(string \<times> document) option"
  parse_log :: "string list"

text \<open>The \<open>else\<close> branch of \<open>memoizeParseQuery\<close>: the text is not the memoized one.\<close>

definition memoize_miss ::
  "(string \<Rightarrow> exn + document) \<Rightarrow> memo_state \<Rightarrow> string \<Rightarrow> exn + document \<times> memo_state" where
  "memoize_miss parse st query =
     (case parseQuery parse (parse_log st) query of
        (log', Inl e) \<Rightarrow> Inl e
      | (log', Inr result) \<Rightarrow>
          (let st' = st\<lparr>parse_log := log'\<rparr> in
           case result of
             ParsedNull \<Rightarrow> Inr (DEFAULT_DOCUMENT, st')
           | ParsedError e \<Rightarrow>
               (case parseQueryMemoize st of
                  Some (q, d) \<Rightarrow> Inr (d, st')
                | None \<Rightarrow> Inr (DEFAULT_DOCUMENT, st'))
           | Parsed d \<Rightarrow> Inr (d, st'\<lparr>parseQueryMemoize := Some (query, d)\<rparr>)))"

definition memoizeParseQuery ::
  "(string \<Rightarrow> exn + document) \<Rightarrow> memo_state \<Rightarrow> string \<Rightarrow> exn + document \<times> memo_state" where
  "memoizeParseQuery parse st query =
     (case parseQueryMemoize st of
        Some (q, d) \<Rightarrow> if q = query then Inr (d, st) else memoize_miss parse st query
      | None \<Rightarrow> memoize_miss parse st query)"

text \<open>
  The memoized text is never empty after trimming: the memo is written only
  after \<open>parseQuery\<close> has returned a document.
\<close>

definition memo_ok :: "memo_state \<Rightarrow> bool" where
  "memo_ok st = (case parseQueryMemoize st of None \<Rightarrow> True | Some (q, d) \<Rightarrow> js_trim q \<noteq> [])"

section \<open>RootView: the operation resolver\<close>

record RootView =
  rv_operation :: operation_type
  parsedQuery :: document
  previousOperationDef :: "operation_definition option"

text \<open>\<open>d.kind === 'OperationDefinition' && d.operation === this.props.operation\<close>\<close>

fun is_operation_of :: "operation_type \<Rightarrow> definition_node \<Rightarrow> bool" where
  "is_operation_of k (OperationDefinition od) = (od_operation od = k)"
| "is_operation_of k _ = False"

text \<open>The synthesized definition: an object literal, created at address \<open>r\<close>.\<close>

definition synthesized :: "ref \<Rightarrow> operation_type \<Rightarrow> operation_definition" where
  "synthesized r k =
     \<lparr>od_ref = r, od_operation = k, od_name = None, od_variableDefinitions = None,
      od_directives = None, od_selections = []\<rparr>"

definition getOperationDef :: "ref \<Rightarrow> RootView \<Rightarrow> document \<Rightarrow> exn + operation_definition" where
  "getOperationDef r this doc =
     (case find (is_operation_of (rv_operation this)) (definitions doc) of
        None \<Rightarrow> Inr (synthesized r (rv_operation this))
      | Some (OperationDefinition od) \<Rightarrow> Inr od
      | Some _ \<Rightarrow> Inl (Thrown ''invalid operation''))"

text \<open>
  \<open>_modifySelections\<close>: \<open>r\<close> is the address of the definition that
  \<open>_getOperationDef\<close> synthesizes, \<open>r'\<close> that of \<open>newOperationDef\<close>. The
  result is the component after the call and the text passed to
  \<open>this.props.onEdit\<close>, the library's \<open>print\<close> of the edited document.
\<close>

definition modifySelections ::
  "(document \<Rightarrow> 't) \<Rightarrow> ref \<Rightarrow> ref \<Rightarrow> RootView \<Rightarrow> selection_node list \<Rightarrow> exn + RootView \<times> 't" where
  "modifySelections print r r' this sels =
     (case getOperationDef r this (parsedQuery this) of
        Inl e \<Rightarrow> Inl e
      | Inr located \<Rightarrow>
          (let operationDef =
                 (case previousOperationDef this of
                    Some p \<Rightarrow> if od_selections located = [] then p else located
                  | None \<Rightarrow> located)
           in
           if sels = [] then
             Inr (this\<lparr>previousOperationDef := Some operationDef\<rparr>,
                  print ((parsedQuery this)
                    \<lparr>definitions :=
                       filter (\<lambda>d. def_ref d \<noteq> od_ref operationDef)
                         (definitions (parsedQuery this))\<rparr>))
           else
             (let newOperationDef = operationDef\<lparr>od_ref := r', od_selections := sels\<rparr>;
                  replaced = list_ex (\<lambda>op. def_ref op = od_ref operationDef)
                               (definitions (parsedQuery this));
                  newDefinitions =
                    map (\<lambda>op. if def_ref op = od_ref operationDef
                               then OperationDefinition newOperationDef else op)
                      (definitions (parsedQuery this))
              in Inr (this,
                      print ((parsedQuery this)
                        \<lparr>definitions :=
                           (if replaced then newDefinitions
                            else OperationDefinition newOperationDef # newDefinitions)\<rparr>)))))"

section \<open>Input-control plugin registry (ScalarInputPluginManager)\<close>

text \<open>
  A plugin is an object with two methods, \<open>canProcess(arg)\<close> and
  \<open>render(arg, styleConfig, onChangeHandler)\<close>. The argument, the style
  configuration, the change handler and the rendering are opaque to the
  registry, so they are type parameters.
\<close>

record ('a, 's, 'h, 'r) plugin =
  canProcess :: "'a \<Rightarrow> bool"
  render :: "'a \<Rightarrow> 's \<Rightarrow> 'h \<Rightarrow> 'r"

record ('a, 's, 'h, 'r) ScalarInputPluginManager =
  plugins :: "('a, 's, 'h, 'r) plugin list"

text \<open>
  The constructor. Its two parameters have defaults (\<open>plugins = []\<close>,
  \<open>enableBundledPlugins = false\<close>), taken when the caller passes nothing
  (\<open>None\<close>). \<open>enabledPlugins\<close> is the caller's own array, and \<open>push\<close>
  extends it in place: the second component of the result is that array after
  the call. The module constant \<open>bundledPlugins\<close> is \<open>[DatePlugin]\<close>, imported
  from a file that is not part of the sources; it is a parameter here.
\<close>

definition new_ScalarInputPluginManager ::
  "('a, 's, 'h, 'r) plugin list \<Rightarrow> ('a, 's, 'h, 'r) plugin list option \<Rightarrow> bool option
     \<Rightarrow> ('a, 's, 'h, 'r) ScalarInputPluginManager \<times> ('a, 's, 'h, 'r) plugin list" where
  "new_ScalarInputPluginManager bundledPlugins plugins_arg enableBundledPlugins_arg =
     (let plugins = (case plugins_arg of None \<Rightarrow> [] | Some ps \<Rightarrow> ps);
          enableBundledPlugins = (case enableBundledPlugins_arg of None \<Rightarrow> False | Some b \<Rightarrow> b);
          enabledPlugins = (if enableBundledPlugins then plugins @ bundledPlugins else plugins)
      in (\<lparr>plugins = enabledPlugins\<rparr>, enabledPlugins))"

text \<open>
  \<open>process\<close>: \<open>Array.prototype.find\<close> is \<^const>\<open>find\<close>; a plugin object is
  truthy, so \<open>if (handler)\<close> tests that one was found. \<open>None\<close> is the
  \<open>return null\<close>.
\<close>

definition process ::
  "('a, 's, 'h, 'r) ScalarInputPluginManager \<Rightarrow> 'a \<Rightarrow> 's \<Rightarrow> 'h \<Rightarrow> 'r option" where
  "process this arg styleConfig onChangeHandler =
     (case find (\<lambda>plugin. canProcess plugin arg) (plugins this) of
        Some handler \<Rightarrow> Some (render handler arg styleConfig onChangeHandler)
      | None \<Rightarrow> None)"

section \<open>The default-selection policy as the specification words it\<close>

text \<open>
  The policy of the specification, rule by rule. Its last rule takes the
  first two fields "whose type unwraps (through List/NonNull) to a Scalar or
  Enum type".
\<close>

definition claimed_default_field_names :: "object_type \<Rightarrow> string list" where
  "claimed_default_field_names type =
     (if ''id'' \<in> fst ` set (getFields type) then
        ''id'' # (if ''email'' \<in> fst ` set (getFields type) then [''email'']
                  else if ''name'' \<in> fst ` set (getFields type) then [''name'']
                  else [])
      else if ''edges'' \<in> fst ` set (getFields type) then [''edges'']
      else if ''node'' \<in> fst ` set (getFields type) then [''node'']
      else if ''nodes'' \<in> fst ` set (getFields type) then [''nodes'']
      else take 2 (map fst (filter (\<lambda>(n, f). isLeafType (unwrapOutputType (field_type f)))
                              (getFields type))))"

text \<open>
  The same policy with the last rule on the declared type itself: the first
  two fields whose type is a Scalar or Enum type.
\<close>

definition amended_default_field_names :: "object_type \<Rightarrow> string list" where
  "amended_default_field_names type =
     (if ''id'' \<in> fst ` set (getFields type) then
        ''id'' # (if ''email'' \<in> fst ` set (getFields type) then [''email'']
                  else if ''name'' \<in> fst ` set (getFields type) then [''name'']
                  else [])
      else if ''edges'' \<in> fst ` set (getFields type) then [''edges'']
      else if ''node'' \<in> fst ` set (getFields type) then [''node'']
      else if ''nodes'' \<in> fst ` set (getFields type) then [''nodes'']
      else take 2 (map fst (filter (\<lambda>(n, f). isLeafType (field_type f)) (getFields type))))"

section \<open>Default arguments as the specification words them\<close>

text \<open>
  The default-literal rules: Enum, the first declared value; String, the
  empty string; Float, \<open>1.5\<close>; Int, \<open>10\<close>; Boolean, \<open>false\<close>; any other
  scalar, the empty string.
\<close>

fun default_literal :: "gql_type \<Rightarrow> value_node option" where
  "default_literal (EnumType n []) = None"
| "default_literal (EnumType n (v # vs)) = Some (EnumValue v)"
| "default_literal (ScalarType n) =
     Some (if n = ''String'' then StringValue ''''
           else if n = ''Float'' then FloatValue ''1.5''
           else if n = ''Int'' then IntValue ''10''
           else if n = ''Boolean'' then BooleanValue False
           else StringValue '''')"
| "default_literal _ = None"

text \<open>
  \<open>seeded S t v\<close>: the value \<open>v\<close> is the seed of an argument or input field
  of type \<open>t\<close>. For a type that unwraps to a leaf type it is the default
  literal; for one that unwraps to an input object type it is an ObjectValue
  with one field per required field of that type, in declared order and
  nothing else, each seeded in the same way (\<open>seeded_fields\<close>).
\<close>

fun seeded :: "schema \<Rightarrow> gql_type \<Rightarrow> value_node \<Rightarrow> bool"
  and seeded_fields :: "schema \<Rightarrow> input_field list \<Rightarrow> object_field_node list \<Rightarrow> bool" where
  "seeded S t (ObjectValue nodes) =
     (case unwrapInputType t of
        InputObjectType n \<Rightarrow> seeded_fields S (filter isRequiredInputField (map snd (S n))) nodes
      | _ \<Rightarrow> False)"
| "seeded S t v = (default_literal (unwrapInputType t) = Some v)"
| "seeded_fields S [] [] = True"
| "seeded_fields S (f # fs) (ObjectField n v # nodes) =
     (n = arg_name f \<and> seeded S (arg_type f) v \<and> seeded_fields S fs nodes)"
| "seeded_fields S _ _ = False"

text \<open>
  What a valid schema gives the default generator. An input type unwraps to
  a scalar, an enum with at least one value, or an input object type; and the
  required fields of input object types do not form a cycle: some rank
  decreases from an input object type to the input object types of its
  required fields.
\<close>

definition input_type_ok :: "gql_type \<Rightarrow> bool" where
  "input_type_ok t =
     (isScalarType (unwrapInputType t)
      \<or> (isEnumType (unwrapInputType t) \<and> getValues (unwrapInputType t) \<noteq> [])
      \<or> isInputObjectType (unwrapInputType t))"

definition rank_below :: "(string \<Rightarrow> nat) \<Rightarrow> nat \<Rightarrow> gql_type \<Rightarrow> bool" where
  "rank_below rank b t =
     (case unwrapInputType t of InputObjectType m \<Rightarrow> rank m < b | _ \<Rightarrow> True)"

definition schema_ok :: "schema \<Rightarrow> (string \<Rightarrow> nat) \<Rightarrow> bool" where
  "schema_ok S rank =
     (\<forall>n. \<forall>f\<in>set (map snd (S n)). isRequiredInputField f \<longrightarrow>
        input_type_ok (arg_type f) \<and> rank_below rank (rank n) (arg_type f))"

section \<open>Example inputs\<close>

text \<open>
  A schema field \<open>b\<close> and three sibling selections; the second belongs to
  \<open>b\<close> and carries an argument and a nested selection set. \<open>ex_twin\<close> has the
  contents of \<open>ex_node_b\<close> at another address.
\<close>

abbreviation ex_field_b :: gql_field where
  "ex_field_b \<equiv> \<lparr>field_name = ''b'', field_type = ObjectType ''B'', field_args = []\<rparr>"

abbreviation ex_node_a :: selection_node where
  "ex_node_a \<equiv> FieldNode 1 None (Some []) None ''a'' None"

abbreviation ex_node_b :: selection_node where
  "ex_node_b \<equiv> FieldNode 2 (Some ''mine'') (Some [Argument ''x'' (IntValue ''1'')]) (Some [])
     ''b'' (Some [FieldNode 3 None (Some []) None ''c'' None])"

abbreviation ex_twin :: selection_node where
  "ex_twin \<equiv> FieldNode 4 (Some ''mine'') (Some [Argument ''x'' (IntValue ''1'')]) (Some [])
     ''b'' (Some [FieldNode 3 None (Some []) None ''c'' None])"

abbreviation ex_view :: FieldView where
  "ex_view \<equiv> \<lparr>field = ex_field_b, selections = [ex_node_a, ex_node_b, ex_twin],
     previousSelection = Some ex_node_a\<rparr>"

abbreviation ex_view_without_b :: FieldView where
  "ex_view_without_b \<equiv> \<lparr>field = ex_field_b, selections = [ex_node_a],
     previousSelection = Some ex_node_b\<rparr>"

text \<open>
  A document with a fragment, a query and a mutation, and a parser that
  accepts one text.
\<close>

abbreviation ex_query :: operation_definition where
  "ex_query \<equiv> \<lparr>od_ref = 21, od_operation = Query, od_name = Some ''Q'',
     od_variableDefinitions = None, od_directives = None,
     od_selections = [ex_node_a, ex_node_b]\<rparr>"

abbreviation ex_mutation :: operation_definition where
  "ex_mutation \<equiv> \<lparr>od_ref = 22, od_operation = Mutation, od_name = None,
     od_variableDefinitions = None, od_directives = None,
     od_selections = [FieldNode 5 None (Some []) None ''m'' None]\<rparr>"

abbreviation ex_doc :: document where
  "ex_doc \<equiv> \<lparr>definitions = [FragmentDefinition 20 ''F'' ''B'' None [ex_node_a],
     OperationDefinition ex_query, OperationDefinition ex_mutation]\<rparr>"

abbreviation ex_parse :: "string \<Rightarrow> exn + document" where
  "ex_parse \<equiv> \<lambda>text. if text = ''{a}'' then Inr ex_doc else Inl (Thrown ''Syntax Error'')"

abbreviation ex_memo :: memo_state where
  "ex_memo \<equiv> \<lparr>parseQueryMemoize = Some (''{a}'', ex_doc), parse_log = [''{a}'']\<rparr>"

text \<open>An object type \<open>{a: String!, b: Int, c: [Int], d: Boolean}\<close>.\<close>

abbreviation ex_type :: object_type where
  "ex_type \<equiv> \<lparr>ot_name = ''T'', getFields =
     [(''a'', \<lparr>field_name = ''a'', field_type = NonNullType (ScalarType ''String''), field_args = []\<rparr>),
      (''b'', \<lparr>field_name = ''b'', field_type = ScalarType ''Int'', field_args = []\<rparr>),
      (''c'', \<lparr>field_name = ''c'', field_type = ListType (ScalarType ''Int''), field_args = []\<rparr>),
      (''d'', \<lparr>field_name = ''d'', field_type = ScalarType ''Boolean'', field_args = []\<rparr>)]\<rparr>"

text \<open>
  A \<open>parseValue\<close> that accepts two texts and a \<open>JSON.parse\<close> that accepts
  two; they throw on every other text.
\<close>

abbreviation ex_env :: js_env where
  "ex_env \<equiv> \<lparr>parseValue = (\<lambda>t s. if s = ''10'' then Inr (JSNumber ''10'')
                                  else if s = ''GREEN'' then Inr (JSString ''GREEN'')
                                  else Inl (Thrown ''cannot represent value'')),
               JSON_parse = (\<lambda>s. if s = ''true'' then Inr (JSBoolean True)
                                 else if s = ''1'' then Inr (JSNumber ''1'')
                                 else Inl (Thrown ''Unexpected token''))\<rparr>"

abbreviation ex_enum :: gql_type where
  "ex_enum \<equiv> EnumType ''Color'' [''RED'', ''GREEN'']"

text \<open>
  A schema with two input object types: \<open>Filter {limit: Int!, tag: String,
  inner: Inner!}\<close> and \<open>Inner {flag: Boolean!, back: Filter}\<close>; the cycle
  runs through the optional field \<open>back\<close>. The field \<open>search\<close> has the
  arguments \<open>a: Int!\<close>, \<open>b: String!\<close>, \<open>c: String\<close>, \<open>d: Filter!\<close>,
  \<open>e: [Color!]!\<close> and \<open>f: Int! = 5\<close>.
\<close>

abbreviation ex_schema :: schema where
  "ex_schema \<equiv> \<lambda>n.
     if n = ''Filter'' then
       [(''limit'', \<lparr>arg_name = ''limit'', arg_type = NonNullType (ScalarType ''Int''),
                     arg_defaultValue = JSUndefined\<rparr>),
        (''tag'', \<lparr>arg_name = ''tag'', arg_type = ScalarType ''String'',
                   arg_defaultValue = JSUndefined\<rparr>),
        (''inner'', \<lparr>arg_name = ''inner'', arg_type = NonNullType (InputObjectType ''Inner''),
                     arg_defaultValue = JSUndefined\<rparr>)]
     else if n = ''Inner'' then
       [(''flag'', \<lparr>arg_name = ''flag'', arg_type = NonNullType (ScalarType ''Boolean''),
                    arg_defaultValue = JSUndefined\<rparr>),
        (''back'', \<lparr>arg_name = ''back'', arg_type = InputObjectType ''Filter'',
                    arg_defaultValue = JSUndefined\<rparr>)]
     else []"

abbreviation ex_rank :: "string \<Rightarrow> nat" where
  "ex_rank \<equiv> \<lambda>n. if n = ''Filter'' then 1 else 0"

abbreviation ex_search :: gql_field where
  "ex_search \<equiv> \<lparr>field_name = ''search'', field_type = ObjectType ''Result'', field_args =
     [\<lparr>arg_name = ''a'', arg_type = NonNullType (ScalarType ''Int''), arg_defaultValue = JSUndefined\<rparr>,
      \<lparr>arg_name = ''b'', arg_type = NonNullType (ScalarType ''String''), arg_defaultValue = JSUndefined\<rparr>,
      \<lparr>arg_name = ''c'', arg_type = ScalarType ''String'', arg_defaultValue = JSUndefined\<rparr>,
      \<lparr>arg_name = ''d'', arg_type = NonNullType (InputObjectType ''Filter''),
       arg_defaultValue = JSUndefined\<rparr>,
      \<lparr>arg_name = ''e'', arg_type = NonNullType (ListType (NonNullType ex_enum)),
       arg_defaultValue = JSUndefined\<rparr>,
      \<lparr>arg_name = ''f'', arg_type = NonNullType (ScalarType ''Int''),
       arg_defaultValue = JSNumber ''5''\<rparr>]\<rparr>"

text \<open>
  A node for \<open>search\<close> as an earlier remove may have cached it: the user
  had set the optional argument \<open>c\<close> and taken the required ones out.
\<close>

abbreviation ex_cached_search :: selection_node where
  "ex_cached_search \<equiv>
     FieldNode 7 None (Some [Argument ''c'' (StringValue ''hi'')]) (Some []) ''search'' None"

abbreviation ex_search_args :: "argument_node list" where
  "ex_search_args \<equiv>
     [Argument ''a'' (IntValue ''10''),
      Argument ''b'' (StringValue ''''),
      Argument ''d'' (ObjectValue
        [ObjectField ''limit'' (IntValue ''10''),
         ObjectField ''inner'' (ObjectValue [ObjectField ''flag'' (BooleanValue False)])]),
      Argument ''e'' (EnumValue ''RED'')]"

text \<open>
  An input object type \<open>Loop {next: [Loop!]!}\<close>: its required field is a
  list of its own type.
\<close>

abbreviation ex_cyclic :: schema where
  "ex_cyclic \<equiv> \<lambda>n. [(''next'', \<lparr>arg_name = ''next'',
     arg_type = NonNullType (ListType (NonNullType (InputObjectType ''Loop''))),
     arg_defaultValue = JSUndefined\<rparr>)]"

text \<open>A field \<open>walk(from: Loop!)\<close>, its one argument required.\<close>

abbreviation ex_walk :: gql_field where
  "ex_walk \<equiv> \<lparr>field_name = ''walk'', field_type = ObjectType ''Result'', field_args =
     [\<lparr>arg_name = ''from'', arg_type = NonNullType (InputObjectType ''Loop''),
       arg_defaultValue = JSUndefined\<rparr>]\<rparr>"

section \<open>Facts about lists of objects\<close>

lemma find_first_index:
  assumes "i < length xs" and "P (xs ! i)" and "\<forall>j<i. \<not> P (xs ! j)"
  shows "find P xs = Some (xs ! i)"
  using assms
proof (induction xs arbitrary: i)
  case Nil
  then show ?case by simp
next
  case (Cons x xs)
  show ?case
  proof (cases i)
    case 0
    with Cons.prems show ?thesis by simp
  next
    case (Suc k)
    from Cons.prems Suc have "\<not> P x" by auto
    moreover have "find P xs = Some (xs ! k)"
    proof (rule Cons.IH)
      show "k < length xs" using Cons.prems Suc by simp
      show "P (xs ! k)" using Cons.prems Suc by simp
      show "\<forall>j<k. \<not> P (xs ! j)"
      proof (intro allI impI)
        fix j assume "j < k"
        then have "Suc j < i" using Suc by simp
        with Cons.prems have "\<not> P ((x # xs) ! Suc j)" by blast
        then show "\<not> P (xs ! j)" by simp
      qed
    qed
    ultimately show ?thesis using Suc by simp
  qed
qed

lemma find_append_first:
  assumes "i < length xs" and "P (xs ! i)" and "\<forall>j<i. \<not> P (xs ! j)"
  shows "find P (xs @ ys) = Some (xs ! i)"
proof -
  have "i < length (xs @ ys)" using assms by simp
  moreover have "P ((xs @ ys) ! i)" using assms by (simp add: nth_append)
  moreover have "\<forall>j<i. \<not> P ((xs @ ys) ! j)" using assms by (simp add: nth_append)
  ultimately have "find P (xs @ ys) = Some ((xs @ ys) ! i)" by (rule find_first_index)
  then show ?thesis using assms by (simp add: nth_append)
qed

lemma first_capable_exists:
  assumes "\<exists>x\<in>set xs. P x"
  shows "\<exists>i<length xs. P (xs ! i) \<and> (\<forall>j<i. \<not> P (xs ! j))"
proof -
  let ?i = "LEAST i. i < length xs \<and> P (xs ! i)"
  from assms obtain k where k: "k < length xs \<and> P (xs ! k)"
    by (auto simp: in_set_conv_nth)
  then have "?i < length xs \<and> P (xs ! ?i)" by (rule LeastI)
  moreover have "\<forall>j<?i. \<not> P (xs ! j)"
  proof (intro allI impI notI)
    fix j assume "j < ?i" and "P (xs ! j)"
    then have "j < length xs \<and> P (xs ! j)" using \<open>?i < length xs \<and> P (xs ! ?i)\<close> by simp
    then have "?i \<le> j" by (rule Least_le)
    with \<open>j < ?i\<close> show False by simp
  qed
  ultimately show ?thesis by blast
qed

text \<open>In a list of distinct objects, the head's address is that of no later element.\<close>

lemma distinct_head_differs:
  assumes "distinct (map f (x # xs))"
  shows "\<forall>y\<in>set xs. f y \<noteq> f x"
proof
  fix y assume "y \<in> set xs"
  then have "f y \<in> f ` set xs" by (rule imageI)
  moreover have "f x \<notin> f ` set xs" using assms by simp
  ultimately show "f y \<noteq> f x" by metis
qed

text \<open>Filtering out one object of a list of distinct objects removes one position.\<close>

lemma filter_distinct_nth:
  assumes "distinct (map f xs)" and "i < length xs"
  shows "filter (\<lambda>x. f x \<noteq> f (xs ! i)) xs = take i xs @ drop (Suc i) xs"
  using assms
proof (induction xs arbitrary: i)
  case Nil
  then show ?case by simp
next
  case (Cons x xs)
  have hd: "\<forall>y\<in>set xs. f y \<noteq> f x" using Cons.prems(1) by (rule distinct_head_differs)
  show ?case
  proof (cases i)
    case 0
    from hd have "filter (\<lambda>y. f y \<noteq> f x) xs = xs" by (simp add: filter_id_conv)
    with 0 show ?thesis by simp
  next
    case (Suc k)
    then have k: "k < length xs" using Cons.prems by simp
    then have "xs ! k \<in> set xs" by simp
    then have "f x \<noteq> f (xs ! k)" using hd by metis
    moreover have "filter (\<lambda>y. f y \<noteq> f (xs ! k)) xs = take k xs @ drop (Suc k) xs"
      using Cons.IH [of k] Cons.prems k by simp
    ultimately show ?thesis using Suc by simp
  qed
qed

lemma nth_in_take_drop:
  assumes "j < length xs" and "j \<noteq> i"
  shows "xs ! j \<in> set (take i xs @ drop (Suc i) xs)"
proof (cases "j < i")
  case True
  then have "xs ! j = take i xs ! j" by simp
  moreover have "j < length (take i xs)" using True assms by simp
  ultimately have "xs ! j \<in> set (take i xs)" by (metis nth_mem)
  then show ?thesis by simp
next
  case False
  with assms have "Suc i \<le> j" by simp
  then have "drop (Suc i) xs ! (j - Suc i) = xs ! j" and "j - Suc i < length (drop (Suc i) xs)"
    using assms(1) by simp_all
  then have "xs ! j \<in> set (drop (Suc i) xs)" by (metis nth_mem)
  then show ?thesis by simp
qed

lemma map_enumerate_unchanged:
  assumes "\<forall>y\<in>set xs. f y \<noteq> a"
  shows "map (\<lambda>(j, s). if f s = a then g j else s) (enumerate n xs) = xs"
  using assms by (induction xs arbitrary: n) auto

text \<open>Replacing one object of a list of distinct objects changes one position.\<close>

lemma map_enumerate_distinct_nth:
  assumes "distinct (map f xs)" and "i < length xs"
  shows "map (\<lambda>(j, s). if f s = f (xs ! i) then g j else s) (enumerate n xs) = xs[i := g (n + i)]"
  using assms
proof (induction xs arbitrary: i n)
  case Nil
  then show ?case by simp
next
  case (Cons x xs)
  have hd: "\<forall>y\<in>set xs. f y \<noteq> f x" using Cons.prems(1) by (rule distinct_head_differs)
  show ?case
  proof (cases i)
    case 0
    from hd have "map (\<lambda>(j, s). if f s = f x then g j else s) (enumerate (Suc n) xs) = xs"
      by (rule map_enumerate_unchanged)
    with 0 show ?thesis by simp
  next
    case (Suc k)
    then have k: "k < length xs" using Cons.prems by simp
    then have "xs ! k \<in> set xs" by simp
    then have "f x \<noteq> f (xs ! k)" using hd by metis
    moreover have "map (\<lambda>(j, s). if f s = f (xs ! k) then g j else s) (enumerate (Suc n) xs)
        = xs[k := g (Suc n + k)]"
      using Cons.IH [of k "Suc n"] Cons.prems k by simp
    ultimately show ?thesis using Suc by simp
  qed
qed

section \<open>Properties of the field synchronizer\<close>

lemma belongs_to_is_Field: "belongs_to f s \<Longrightarrow> is_Field s"
  by (cases s) simp_all

lemma getSelection_first:
  assumes "i < length (selections this)"
    and "belongs_to (field this) (selections this ! i)"
    and "\<forall>j<i. \<not> belongs_to (field this) (selections this ! j)"
  shows "getSelection this = Some (selections this ! i)"
proof -
  have "find (belongs_to (field this)) (selections this) = Some (selections this ! i)"
    using assms by (rule find_first_index)
  moreover have "is_Field (selections this ! i)"
    using assms(2) by (rule belongs_to_is_Field)
  ultimately show ?thesis by (simp add: getSelection_def)
qed

lemma getSelection_absent:
  assumes "\<forall>s\<in>set (selections this). \<not> belongs_to (field this) s"
  shows "getSelection this = None"
proof -
  have "find (belongs_to (field this)) (selections this) = None"
    using assms by (simp add: find_None_iff)
  then show ?thesis by (simp add: getSelection_def)
qed

lemma getSelection_found:
  assumes "\<exists>s\<in>set (selections this). belongs_to (field this) s"
  shows "\<exists>n\<in>set (selections this). belongs_to (field this) n \<and> getSelection this = Some n"
proof -
  from assms obtain i where i: "i < length (selections this)"
    "belongs_to (field this) (selections this ! i)"
    "\<forall>j<i. \<not> belongs_to (field this) (selections this ! j)"
    using first_capable_exists [of "selections this" "belongs_to (field this)"] by blast
  then have "getSelection this = Some (selections this ! i)" by (rule getSelection_first)
  moreover have "selections this ! i \<in> set (selections this)" using i(1) by simp
  ultimately show ?thesis using i(2) by blast
qed

lemma remove_found:
  assumes "getSelection this = Some n"
  shows "removeFieldFromSelections this =
           (this\<lparr>previousSelection := Some n\<rparr>,
            filter (\<lambda>s. sel_ref s \<noteq> sel_ref n) (selections this))"
  using assms by (simp add: removeFieldFromSelections_def same_selection_def)

text \<open>
  C1. When the sibling list holds a Field node that belongs to the schema
  field, remove stores the found node \<open>n\<close> in the undo slot, whatever the
  slot held, and passes on the siblings without that object. An add that
  follows, on any sibling list \<open>sibs\<close> the component is then given (in
  particular the list that remove produced), passes on \<open>sibs\<close> followed by
  \<open>n\<close> itself, with its arguments and nested selection set as they were;
  it returns at any depth, and leaves the undo slot as it was.
\<close>

theorem remove_then_add_restores_node:
  assumes "\<exists>s\<in>set (selections this). belongs_to (field this) s"
  shows "\<exists>n\<in>set (selections this). belongs_to (field this) n
           \<and> removeFieldFromSelections this =
               (this\<lparr>previousSelection := Some n\<rparr>,
                filter (\<lambda>s. sel_ref s \<noteq> sel_ref n) (selections this))
           \<and> addFieldToSelections depth S r
                 ((fst (removeFieldFromSelections this))\<lparr>selections := sibs\<rparr>)
               = Some (Inr ((fst (removeFieldFromSelections this))\<lparr>selections := sibs\<rparr>,
                            sibs @ [n]))
           \<and> previousSelection (fst (removeFieldFromSelections this)) = Some n"
proof -
  from assms obtain n where n: "n \<in> set (selections this)" "belongs_to (field this) n"
    "getSelection this = Some n"
    using getSelection_found by blast
  have rm: "removeFieldFromSelections this =
      (this\<lparr>previousSelection := Some n\<rparr>,
       filter (\<lambda>s. sel_ref s \<noteq> sel_ref n) (selections this))"
    using n(3) by (rule remove_found)
  have "addFieldToSelections depth S r
          ((fst (removeFieldFromSelections this))\<lparr>selections := sibs\<rparr>)
        = Some (Inr ((fst (removeFieldFromSelections this))\<lparr>selections := sibs\<rparr>, sibs @ [n]))"
    by (simp add: rm addFieldToSelections_def)
  moreover have "previousSelection (fst (removeFieldFromSelections this)) = Some n"
    by (simp add: rm)
  ultimately show ?thesis using n(1,2) rm by blast
qed

theorem remove_then_add_restores_node_witness:
  "(\<exists>s\<in>set (selections ex_view). belongs_to (field ex_view) s)
   \<and> removeFieldFromSelections ex_view =
       (ex_view\<lparr>previousSelection := Some ex_node_b\<rparr>, [ex_node_a, ex_twin])
   \<and> addFieldToSelections 0 (\<lambda>n. []) 9
        ((fst (removeFieldFromSelections ex_view))\<lparr>selections := [ex_node_a, ex_twin]\<rparr>)
       = Some (Inr ((fst (removeFieldFromSelections ex_view))\<lparr>selections := [ex_node_a, ex_twin]\<rparr>,
                    [ex_node_a, ex_twin, ex_node_b]))"
  using remove_then_add_restores_node [of ex_view 0 "\<lambda>n. []" 9 "[ex_node_a, ex_twin]"]
  by (simp add: removeFieldFromSelections_def getSelection_def same_selection_def
      addFieldToSelections_def)

text \<open>
  C7. In a sibling list of distinct objects, let position \<open>i\<close> hold the first
  Field node whose name is the schema field's. Remove stores that node in the
  undo slot and passes on the list without position \<open>i\<close>: every other
  position, a node of equal contents at another address included, is kept,
  in the original order.
\<close>

theorem remove_excludes_by_identity:
  assumes "distinct (map sel_ref (selections this))"
    and "i < length (selections this)"
    and "belongs_to (field this) (selections this ! i)"
    and "\<forall>j<i. \<not> belongs_to (field this) (selections this ! j)"
  shows "removeFieldFromSelections this =
           (this\<lparr>previousSelection := Some (selections this ! i)\<rparr>,
            take i (selections this) @ drop (Suc i) (selections this))
         \<and> (\<forall>j<length (selections this). j \<noteq> i \<longrightarrow>
               selections this ! j \<in> set (snd (removeFieldFromSelections this)))"
proof -
  have "getSelection this = Some (selections this ! i)"
    using assms(2-4) by (rule getSelection_first)
  then have "removeFieldFromSelections this =
      (this\<lparr>previousSelection := Some (selections this ! i)\<rparr>,
       filter (\<lambda>s. sel_ref s \<noteq> sel_ref (selections this ! i)) (selections this))"
    by (rule remove_found)
  then have rm: "removeFieldFromSelections this =
      (this\<lparr>previousSelection := Some (selections this ! i)\<rparr>,
       take i (selections this) @ drop (Suc i) (selections this))"
    using filter_distinct_nth [OF assms(1,2)] by simp
  moreover have "\<forall>j<length (selections this). j \<noteq> i \<longrightarrow>
      selections this ! j \<in> set (snd (removeFieldFromSelections this))"
    using nth_in_take_drop [of _ "selections this" i] by (simp add: rm)
  ultimately show ?thesis by blast
qed

theorem remove_excludes_by_identity_witness:
  "distinct (map sel_ref (selections ex_view))
   \<and> 1 < length (selections ex_view)
   \<and> belongs_to (field ex_view) (selections ex_view ! 1)
   \<and> \<not> belongs_to (field ex_view) (selections ex_view ! 0)
   \<and> removeFieldFromSelections ex_view =
       (ex_view\<lparr>previousSelection := Some ex_node_b\<rparr>, [ex_node_a, ex_twin])
   \<and> ex_twin \<in> set (snd (removeFieldFromSelections ex_view))"
  using remove_excludes_by_identity [of ex_view 1]
  by simp

text \<open>
  C9. When no Field node of the sibling list has the schema field's name,
  remove passes on the sibling list as it is, and sets the undo slot to
  absent, so a node stored there by an earlier remove is gone.
\<close>

theorem remove_without_match:
  assumes "\<forall>s\<in>set (selections this). \<not> belongs_to (field this) s"
  shows "removeFieldFromSelections this = (this\<lparr>previousSelection := None\<rparr>, selections this)"
proof -
  have "getSelection this = None" using assms by (rule getSelection_absent)
  then show ?thesis by (simp add: removeFieldFromSelections_def same_selection_def)
qed

theorem remove_without_match_witness:
  "\<not> (\<exists>s\<in>set (selections ex_view_without_b). belongs_to (field ex_view_without_b) s)
   \<and> removeFieldFromSelections ex_view_without_b =
       (ex_view_without_b\<lparr>previousSelection := None\<rparr>, [ex_node_a])"
  using remove_without_match [of ex_view_without_b]
  by simp

text \<open>
  C10. In a sibling list of distinct objects, let position \<open>i\<close> hold the
  first Field node whose name is the schema field's. \<open>_setArguments\<close>
  passes on the list with position \<open>i\<close> replaced by a Field node that has the
  new argument list and the alias, directives, name and selection set of the
  node it replaces; every other position is the node it was.
\<close>

theorem setArguments_replaces_arguments_only:
  assumes "distinct (map sel_ref (selections this))"
    and "i < length (selections this)"
    and "belongs_to (field this) (selections this ! i)"
    and "\<forall>j<i. \<not> belongs_to (field this) (selections this ! j)"
  shows "\<exists>out. setArguments new this argumentNodes = (this, Some out)
           \<and> length out = length (selections this)
           \<and> arguments (out ! i) = Some argumentNodes
           \<and> is_Field (out ! i)
           \<and> field_alias (out ! i) = field_alias (selections this ! i)
           \<and> directives (out ! i) = directives (selections this ! i)
           \<and> name_value (out ! i) = name_value (selections this ! i)
           \<and> selectionSet (out ! i) = selectionSet (selections this ! i)
           \<and> (\<forall>j<length (selections this). j \<noteq> i \<longrightarrow> out ! j = selections this ! j)"
proof -
  let ?sel = "selections this ! i"
  let ?new = "\<lambda>j. FieldNode (new j) (field_alias ?sel) (Some argumentNodes)
                    (directives ?sel) (name_value ?sel) (selectionSet ?sel)"
  let ?out = "(selections this)[i := ?new i]"
  have "getSelection this = Some ?sel"
    using assms(2-4) by (rule getSelection_first)
  then have "setArguments new this argumentNodes =
      (this, Some (map (\<lambda>(j, s). if sel_ref s = sel_ref ?sel then ?new j else s)
                     (enumerate 0 (selections this))))"
    by (simp add: setArguments_def same_selection_def)
  then have "setArguments new this argumentNodes = (this, Some ?out)"
    using map_enumerate_distinct_nth [OF assms(1,2), of ?new 0] by simp
  moreover have "length ?out = length (selections this)" by simp
  moreover have "?out ! i = ?new i" using assms(2) by simp
  moreover have "\<forall>j<length (selections this). j \<noteq> i \<longrightarrow> ?out ! j = selections this ! j"
    by simp
  ultimately show ?thesis by simp
qed

theorem setArguments_replaces_arguments_only_witness:
  "distinct (map sel_ref (selections ex_view))
   \<and> 1 < length (selections ex_view)
   \<and> belongs_to (field ex_view) (selections ex_view ! 1)
   \<and> \<not> belongs_to (field ex_view) (selections ex_view ! 0)
   \<and> setArguments (\<lambda>i. 10 + i) ex_view [Argument ''y'' (BooleanValue True)] =
       (ex_view,
        Some [ex_node_a,
              FieldNode 11 (Some ''mine'') (Some [Argument ''y'' (BooleanValue True)]) (Some [])
                ''b'' (Some [FieldNode 3 None (Some []) None ''c'' None]),
              ex_twin])"
  using setArguments_replaces_arguments_only
    [of ex_view 1 "\<lambda>i. 10 + i" "[Argument ''y'' (BooleanValue True)]"]
  by (simp add: setArguments_def getSelection_def same_selection_def enumerate_eq_zip)


section \<open>Properties of the plugin registry\<close>

text \<open>
  C8. \<open>process\<close> returns the rendering of the first plugin, in list order,
  whose \<open>canProcess\<close> accepts the argument, and null (\<open>None\<close>) when no
  plugin accepts it. A registry constructed with the bundled-plugins flag
  holds the caller's plugins followed by the bundled ones, so when some
  caller plugin accepts the argument, the rendering returned is that of the
  first accepting caller plugin, whatever the bundled plugins accept.
\<close>

theorem process_first_capable_plugin:
  "((\<forall>p\<in>set (plugins m). \<not> canProcess p arg) \<longrightarrow> process m arg st h = None)
   \<and> (\<forall>i<length (plugins m). canProcess (plugins m ! i) arg
          \<and> (\<forall>j<i. \<not> canProcess (plugins m ! j) arg)
        \<longrightarrow> process m arg st h = Some (render (plugins m ! i) arg st h))
   \<and> plugins (fst (new_ScalarInputPluginManager bundled (Some ps) (Some True))) = ps @ bundled
   \<and> ((\<exists>p\<in>set ps. canProcess p arg) \<longrightarrow>
        (\<exists>i<length ps. canProcess (ps ! i) arg \<and> (\<forall>j<i. \<not> canProcess (ps ! j) arg)
           \<and> process (fst (new_ScalarInputPluginManager bundled (Some ps) (Some True))) arg st h
               = Some (render (ps ! i) arg st h)))"
proof (intro conjI impI allI)
  assume "\<forall>p\<in>set (plugins m). \<not> canProcess p arg"
  then have "find (\<lambda>plugin. canProcess plugin arg) (plugins m) = None"
    by (simp add: find_None_iff)
  then show "process m arg st h = None" by (simp add: process_def)
next
  fix i
  assume "i < length (plugins m)"
    and "canProcess (plugins m ! i) arg \<and> (\<forall>j<i. \<not> canProcess (plugins m ! j) arg)"
  then have "find (\<lambda>plugin. canProcess plugin arg) (plugins m) = Some (plugins m ! i)"
    by (intro find_first_index) auto
  then show "process m arg st h = Some (render (plugins m ! i) arg st h)"
    by (simp add: process_def)
next
  show "plugins (fst (new_ScalarInputPluginManager bundled (Some ps) (Some True))) = ps @ bundled"
    by (simp add: new_ScalarInputPluginManager_def Let_def)
next
  assume "\<exists>p\<in>set ps. canProcess p arg"
  then obtain i where i: "i < length ps" "canProcess (ps ! i) arg"
    "\<forall>j<i. \<not> canProcess (ps ! j) arg"
    using first_capable_exists [of ps "\<lambda>p. canProcess p arg"] by blast
  then have "find (\<lambda>plugin. canProcess plugin arg) (ps @ bundled) = Some (ps ! i)"
    by (intro find_append_first) auto
  then have "process (fst (new_ScalarInputPluginManager bundled (Some ps) (Some True))) arg st h
      = Some (render (ps ! i) arg st h)"
    by (simp add: process_def new_ScalarInputPluginManager_def Let_def)
  with i show "\<exists>i<length ps. canProcess (ps ! i) arg \<and> (\<forall>j<i. \<not> canProcess (ps ! j) arg)
           \<and> process (fst (new_ScalarInputPluginManager bundled (Some ps) (Some True))) arg st h
               = Some (render (ps ! i) arg st h)"
    by blast
qed

theorem process_first_capable_plugin_witness:
  "(\<exists>p\<in>set [\<lparr>canProcess = (\<lambda>a::nat. a = 1), render = (\<lambda>a (s::unit) (h::unit). ''caller'')\<rparr>].
       canProcess p 1)
   \<and> \<not> (\<exists>p\<in>set (plugins \<lparr>plugins = [\<lparr>canProcess = (\<lambda>a::nat. a = 1),
                                        render = (\<lambda>a (s::unit) (h::unit). ''caller'')\<rparr>]\<rparr>).
         canProcess p 2)
   \<and> process \<lparr>plugins = [\<lparr>canProcess = (\<lambda>a::nat. a = 1),
                           render = (\<lambda>a (s::unit) (h::unit). ''caller'')\<rparr>]\<rparr> 2 () () = None
   \<and> process (fst (new_ScalarInputPluginManager
         [\<lparr>canProcess = (\<lambda>a::nat. True), render = (\<lambda>a (s::unit) (h::unit). ''date'')\<rparr>]
         (Some [\<lparr>canProcess = (\<lambda>a::nat. a = 1), render = (\<lambda>a (s::unit) (h::unit). ''caller'')\<rparr>])
         (Some True))) 1 () () = Some ''caller''"
  using process_first_capable_plugin
    [of "\<lparr>plugins = [\<lparr>canProcess = (\<lambda>a::nat. a = 1),
                       render = (\<lambda>a (s::unit) (h::unit). ''caller'')\<rparr>]\<rparr>"
        2 "()" "()"
        "[\<lparr>canProcess = (\<lambda>a::nat. True), render = (\<lambda>a (s::unit) (h::unit). ''date'')\<rparr>]"
        "[\<lparr>canProcess = (\<lambda>a::nat. a = 1), render = (\<lambda>a (s::unit) (h::unit). ''caller'')\<rparr>]"]
    process_first_capable_plugin
    [of "\<lparr>plugins = [\<lparr>canProcess = (\<lambda>a::nat. a = 1),
                       render = (\<lambda>a (s::unit) (h::unit). ''caller'')\<rparr>]\<rparr>"
        1 "()" "()"
        "[\<lparr>canProcess = (\<lambda>a::nat. True), render = (\<lambda>a (s::unit) (h::unit). ''date'')\<rparr>]"
        "[\<lparr>canProcess = (\<lambda>a::nat. a = 1), render = (\<lambda>a (s::unit) (h::unit). ''caller'')\<rparr>]"]
  by simp

section \<open>Properties of the parse memoizer\<close>

lemma js_trim_empty_iff: "js_trim s = [] \<longleftrightarrow> (\<forall>c\<in>set s. js_whitespace c)"
proof
  assume "js_trim s = []"
  then have all: "\<forall>c\<in>set (dropWhile js_whitespace s). js_whitespace c"
    by (simp add: js_trim_def)
  have "dropWhile js_whitespace s = []"
  proof (rule ccontr)
    assume ne: "dropWhile js_whitespace s \<noteq> []"
    then have "\<not> js_whitespace (hd (dropWhile js_whitespace s))" by (rule hd_dropWhile)
    moreover have "hd (dropWhile js_whitespace s) \<in> set (dropWhile js_whitespace s)"
      using ne by (rule hd_in_set)
    ultimately show False using all by blast
  qed
  then show "\<forall>c\<in>set s. js_whitespace c" by simp
next
  assume "\<forall>c\<in>set s. js_whitespace c"
  then show "js_trim s = []" by (auto simp: js_trim_def dest: set_dropWhileD)
qed

lemma memoize_miss_blank:
  assumes "js_trim query = []"
  shows "memoize_miss parse st query = Inr (DEFAULT_DOCUMENT, st)"
  using assms by (simp add: memoize_miss_def parseQuery_def try_catch_def)

lemma memoize_miss_failure:
  assumes "js_trim query \<noteq> []" and "parse query = Inl e"
  shows "memoize_miss parse st query =
           Inr (case parseQueryMemoize st of Some (q, d) \<Rightarrow> d | None \<Rightarrow> DEFAULT_DOCUMENT,
                st\<lparr>parse_log := parse_log st @ [query]\<rparr>)"
  using assms
  by (cases "parseQueryMemoize st") (auto simp: memoize_miss_def parseQuery_def try_catch_def)

lemma memoize_miss_success:
  assumes "js_trim query \<noteq> []" and "parse query = Inr d"
  shows "memoize_miss parse st query =
           Inr (d, st\<lparr>parse_log := parse_log st @ [query], parseQueryMemoize := Some (query, d)\<rparr>)"
  using assms by (simp add: memoize_miss_def parseQuery_def try_catch_def)

lemma memoize_miss_returns: "\<exists>d st'. memoize_miss parse st query = Inr (d, st')"
proof (cases "js_trim query = []")
  case True
  then show ?thesis by (simp add: memoize_miss_blank)
next
  case False
  then show ?thesis
    by (cases "parse query") (simp_all add: memoize_miss_failure memoize_miss_success)
qed

lemma memoizeParseQuery_not_memoized:
  assumes "map_option fst (parseQueryMemoize st) \<noteq> Some query"
  shows "memoizeParseQuery parse st query = memoize_miss parse st query"
  using assms by (cases "parseQueryMemoize st") (auto simp: memoizeParseQuery_def)

lemma memo_ok_not_blank:
  assumes "memo_ok st" and "js_trim query = []"
  shows "map_option fst (parseQueryMemoize st) \<noteq> Some query"
  using assms by (cases "parseQueryMemoize st") (auto simp: memo_ok_def)

lemma memo_ok_initial: "memo_ok \<lparr>parseQueryMemoize = None, parse_log = []\<rparr>"
  by (simp add: memo_ok_def)

lemma memo_ok_miss:
  assumes "memo_ok st" and "memoize_miss parse st query = Inr (d, st')"
  shows "memo_ok st'"
proof (cases "js_trim query = []")
  case True
  with assms show ?thesis by (simp add: memoize_miss_blank)
next
  case False
  show ?thesis
  proof (cases "parse query")
    case (Inl e)
    with False assms show ?thesis by (auto simp: memoize_miss_failure memo_ok_def)
  next
    case (Inr doc)
    with False assms show ?thesis by (auto simp: memoize_miss_success memo_ok_def)
  qed
qed

lemma memo_ok_preserved:
  assumes "memo_ok st" and "memoizeParseQuery parse st query = Inr (d, st')"
  shows "memo_ok st'"
proof (cases "map_option fst (parseQueryMemoize st) = Some query")
  case True
  then obtain d0 where "parseQueryMemoize st = Some (query, d0)" by auto
  with assms show ?thesis by (simp add: memoizeParseQuery_def)
next
  case False
  then have "memoizeParseQuery parse st query = memoize_miss parse st query"
    by (rule memoizeParseQuery_not_memoized)
  with assms show ?thesis using memo_ok_miss by simp
qed

text \<open>
  C4. \<open>memoizeParseQuery\<close> returns a document on every text, parser,
  and state (it never throws). On a state whose memoized text is not blank
  (true initially and kept by every call): a text that is empty or holds only
  white space yields the empty document, without a call of the parser; a
  text, not the memoized one, on which the parser throws yields the memoized
  document if there is one and the empty document otherwise, and leaves the
  memo as it was; a text, not the memoized one, that parses yields the parsed
  document and makes (text, document) the memo; the memoized text yields the
  memoized document and the parser is not called.
\<close>

theorem memoizeParseQuery_cases:
  "(\<exists>d st'. memoizeParseQuery parse st query = Inr (d, st'))
   \<and> definitions DEFAULT_DOCUMENT = []
   \<and> (memo_ok st \<and> (\<forall>c\<in>set query. js_whitespace c) \<longrightarrow>
        memoizeParseQuery parse st query = Inr (DEFAULT_DOCUMENT, st))
   \<and> (\<forall>e. map_option fst (parseQueryMemoize st) \<noteq> Some query
           \<and> \<not> (\<forall>c\<in>set query. js_whitespace c) \<and> parse query = Inl e \<longrightarrow>
        memoizeParseQuery parse st query =
          Inr (case parseQueryMemoize st of Some (q, d) \<Rightarrow> d | None \<Rightarrow> DEFAULT_DOCUMENT,
               st\<lparr>parse_log := parse_log st @ [query]\<rparr>))
   \<and> (\<forall>d. map_option fst (parseQueryMemoize st) \<noteq> Some query
           \<and> \<not> (\<forall>c\<in>set query. js_whitespace c) \<and> parse query = Inr d \<longrightarrow>
        memoizeParseQuery parse st query =
          Inr (d, st\<lparr>parse_log := parse_log st @ [query],
                      parseQueryMemoize := Some (query, d)\<rparr>))
   \<and> (\<forall>d. parseQueryMemoize st = Some (query, d) \<longrightarrow>
        memoizeParseQuery parse st query = Inr (d, st))
   \<and> (\<forall>d st'. memo_ok st \<and> memoizeParseQuery parse st query = Inr (d, st') \<longrightarrow> memo_ok st')"
proof (intro conjI allI impI)
  show "\<exists>d st'. memoizeParseQuery parse st query = Inr (d, st')"
  proof (cases "map_option fst (parseQueryMemoize st) = Some query")
    case True
    then obtain d0 where "parseQueryMemoize st = Some (query, d0)" by auto
    then show ?thesis by (simp add: memoizeParseQuery_def)
  next
    case False
    then show ?thesis using memoize_miss_returns
      by (simp add: memoizeParseQuery_not_memoized)
  qed
next
  show "definitions DEFAULT_DOCUMENT = []" by (simp add: DEFAULT_DOCUMENT_def)
next
  assume a: "memo_ok st \<and> (\<forall>c\<in>set query. js_whitespace c)"
  then have blank: "js_trim query = []" by (simp add: js_trim_empty_iff)
  with a have "map_option fst (parseQueryMemoize st) \<noteq> Some query"
    using memo_ok_not_blank by blast
  then show "memoizeParseQuery parse st query = Inr (DEFAULT_DOCUMENT, st)"
    using blank by (simp add: memoizeParseQuery_not_memoized memoize_miss_blank)
next
  fix e
  assume a: "map_option fst (parseQueryMemoize st) \<noteq> Some query
           \<and> \<not> (\<forall>c\<in>set query. js_whitespace c) \<and> parse query = Inl e"
  then have "js_trim query \<noteq> []" by (simp add: js_trim_empty_iff)
  with a show "memoizeParseQuery parse st query =
          Inr (case parseQueryMemoize st of Some (q, d) \<Rightarrow> d | None \<Rightarrow> DEFAULT_DOCUMENT,
               st\<lparr>parse_log := parse_log st @ [query]\<rparr>)"
    by (simp add: memoizeParseQuery_not_memoized memoize_miss_failure)
next
  fix d
  assume a: "map_option fst (parseQueryMemoize st) \<noteq> Some query
           \<and> \<not> (\<forall>c\<in>set query. js_whitespace c) \<and> parse query = Inr d"
  then have "js_trim query \<noteq> []" by (simp add: js_trim_empty_iff)
  with a show "memoizeParseQuery parse st query =
          Inr (d, st\<lparr>parse_log := parse_log st @ [query],
                      parseQueryMemoize := Some (query, d)\<rparr>)"
    by (simp add: memoizeParseQuery_not_memoized memoize_miss_success)
next
  fix d
  assume "parseQueryMemoize st = Some (query, d)"
  then show "memoizeParseQuery parse st query = Inr (d, st)"
    by (simp add: memoizeParseQuery_def)
next
  fix d st'
  assume "memo_ok st \<and> memoizeParseQuery parse st query = Inr (d, st')"
  then show "memo_ok st'" using memo_ok_preserved by blast
qed

theorem memoizeParseQuery_cases_witness:
  "memo_ok ex_memo
   \<and> \<not> (\<exists>c\<in>set '' ''. \<not> js_whitespace c)
   \<and> memoizeParseQuery ex_parse ex_memo '' '' = Inr (DEFAULT_DOCUMENT, ex_memo)
   \<and> map_option fst (parseQueryMemoize ex_memo) \<noteq> Some ''{''
   \<and> (\<exists>c\<in>set ''{''. \<not> js_whitespace c)
   \<and> ex_parse ''{'' = Inl (Thrown ''Syntax Error'')
   \<and> memoizeParseQuery ex_parse ex_memo ''{'' =
       Inr (ex_doc, ex_memo\<lparr>parse_log := [''{a}'', ''{'']\<rparr>)
   \<and> map_option fst (parseQueryMemoize \<lparr>parseQueryMemoize = None, parse_log = []\<rparr>) \<noteq> Some ''{a}''
   \<and> (\<exists>c\<in>set ''{a}''. \<not> js_whitespace c)
   \<and> ex_parse ''{a}'' = Inr ex_doc
   \<and> memoizeParseQuery ex_parse \<lparr>parseQueryMemoize = None, parse_log = []\<rparr> ''{a}'' =
       Inr (ex_doc, ex_memo)
   \<and> memoizeParseQuery ex_parse ex_memo ''{a}'' = Inr (ex_doc, ex_memo)"
  using memoizeParseQuery_cases [of ex_parse ex_memo "'' ''"]
    memoizeParseQuery_cases [of ex_parse ex_memo "''{''"]
    memoizeParseQuery_cases [of ex_parse "\<lparr>parseQueryMemoize = None, parse_log = []\<rparr>" "''{a}''"]
    memoizeParseQuery_cases [of ex_parse ex_memo "''{a}''"]
  by (simp add: memo_ok_def js_trim_def js_whitespace_def)

section \<open>Properties of the operation resolver\<close>

lemma map_distinct_nth:
  assumes "distinct (map f xs)" and "i < length xs"
  shows "map (\<lambda>s. if f s = f (xs ! i) then y else s) xs = xs[i := y]"
  using assms
proof (induction xs arbitrary: i)
  case Nil
  then show ?case by simp
next
  case (Cons x xs)
  have hd: "\<forall>z\<in>set xs. f z \<noteq> f x" using Cons.prems(1) by (rule distinct_head_differs)
  show ?case
  proof (cases i)
    case 0
    from hd have "map (\<lambda>s. if f s = f x then y else s) xs = xs"
      by (induction xs) auto
    with 0 show ?thesis by simp
  next
    case (Suc k)
    then have k: "k < length xs" using Cons.prems by simp
    then have "xs ! k \<in> set xs" by simp
    then have "f x \<noteq> f (xs ! k)" using hd by metis
    moreover have "map (\<lambda>s. if f s = f (xs ! k) then y else s) xs = xs[k := y]"
      using Cons.IH [of k] Cons.prems k by simp
    ultimately show ?thesis using Suc by simp
  qed
qed

lemma map_absent_unchanged:
  assumes "a \<notin> f ` set xs"
  shows "map (\<lambda>s. if f s = a then y else s) xs = xs"
  using assms by (induction xs) auto

lemma getOperationDef_found:
  assumes "i < length (definitions doc)"
    and "definitions doc ! i = OperationDefinition od"
    and "od_operation od = rv_operation this"
    and "\<forall>j<i. \<not> is_operation_of (rv_operation this) (definitions doc ! j)"
  shows "getOperationDef r this doc = Inr od"
proof -
  have "is_operation_of (rv_operation this) (definitions doc ! i)"
    using assms(2,3) by simp
  with assms(1) have "find (is_operation_of (rv_operation this)) (definitions doc)
      = Some (definitions doc ! i)"
    using assms(4) by (intro find_first_index) auto
  then show ?thesis using assms(2) by (simp add: getOperationDef_def)
qed

lemma getOperationDef_absent:
  assumes "\<forall>d\<in>set (definitions doc). \<not> is_operation_of (rv_operation this) d"
  shows "getOperationDef r this doc = Inr (synthesized r (rv_operation this))"
proof -
  have "find (is_operation_of (rv_operation this)) (definitions doc) = None"
    using assms by (simp add: find_None_iff)
  then show ?thesis by (simp add: getOperationDef_def)
qed

text \<open>\<open>_getOperationDef\<close> never reaches its \<open>throw\<close>.\<close>

lemma getOperationDef_returns: "\<exists>od. getOperationDef r this doc = Inr od"
proof (cases "find (is_operation_of (rv_operation this)) (definitions doc)")
  case None
  then show ?thesis by (simp add: getOperationDef_def)
next
  case (Some d)
  then have "is_operation_of (rv_operation this) d" by (auto simp: find_Some_iff)
  then obtain od where "d = OperationDefinition od" by (cases d) simp_all
  with Some show ?thesis by (simp add: getOperationDef_def)
qed

text \<open>\<open>_modifySelections\<close> in terms of the definition it edits.\<close>

lemma modifySelections_unfold:
  assumes "getOperationDef r this (parsedQuery this) = Inr located"
    and "operationDef =
           (case previousOperationDef this of
              Some p \<Rightarrow> if od_selections located = [] then p else located
            | None \<Rightarrow> located)"
  shows "modifySelections print r r' this sels =
    (if sels = [] then
       Inr (this\<lparr>previousOperationDef := Some operationDef\<rparr>,
            print ((parsedQuery this)
              \<lparr>definitions := filter (\<lambda>d. def_ref d \<noteq> od_ref operationDef)
                                 (definitions (parsedQuery this))\<rparr>))
     else
       Inr (this,
            print ((parsedQuery this)
              \<lparr>definitions :=
                 (if list_ex (\<lambda>op. def_ref op = od_ref operationDef)
                       (definitions (parsedQuery this))
                  then map (\<lambda>op. if def_ref op = od_ref operationDef
                                  then OperationDefinition
                                         (operationDef\<lparr>od_ref := r', od_selections := sels\<rparr>)
                                  else op)
                         (definitions (parsedQuery this))
                  else OperationDefinition (operationDef\<lparr>od_ref := r', od_selections := sels\<rparr>)
                         # map (\<lambda>op. if def_ref op = od_ref operationDef
                                      then OperationDefinition
                                             (operationDef\<lparr>od_ref := r', od_selections := sels\<rparr>)
                                      else op)
                             (definitions (parsedQuery this)))\<rparr>)))"
  unfolding modifySelections_def Let_def assms(1) assms(2) by simp

text \<open>
  The remembered definition is always of the component's kind, and so it is
  not an object of a document that holds no operation of that kind.
\<close>

lemma getOperationDef_kind:
  assumes "getOperationDef r this doc = Inr od"
  shows "od_operation od = rv_operation this"
proof (cases "find (is_operation_of (rv_operation this)) (definitions doc)")
  case None
  with assms show ?thesis by (auto simp: getOperationDef_def synthesized_def)
next
  case (Some d)
  then have k: "is_operation_of (rv_operation this) d" by (auto simp: find_Some_iff)
  then obtain od' where d: "d = OperationDefinition od'" by (cases d) simp_all
  with Some assms have "od = od'" by (simp add: getOperationDef_def)
  with k d show ?thesis by simp
qed

lemma previous_kind_preserved:
  assumes "\<forall>p. previousOperationDef this = Some p \<longrightarrow> od_operation p = rv_operation this"
    and "modifySelections print r r' this sels = Inr (this', text)"
  shows "rv_operation this' = rv_operation this
         \<and> (\<forall>p. previousOperationDef this' = Some p \<longrightarrow> od_operation p = rv_operation this')"
proof -
  obtain located where loc: "getOperationDef r this (parsedQuery this) = Inr located"
    using getOperationDef_returns by blast
  then have k: "od_operation located = rv_operation this" by (rule getOperationDef_kind)
  define operationDef where "operationDef =
     (case previousOperationDef this of
        Some p \<Rightarrow> if od_selections located = [] then p else located
      | None \<Rightarrow> located)"
  have ok: "od_operation operationDef = rv_operation this"
    using assms(1) k by (simp add: operationDef_def split: option.split)
  note ms = modifySelections_unfold [OF loc operationDef_def, of print r' sels]
  show ?thesis
  proof (cases "sels = []")
    case True
    with ms assms(2) have "this' = this\<lparr>previousOperationDef := Some operationDef\<rparr>" by simp
    with ok show ?thesis by simp
  next
    case False
    with ms assms(2) have "this' = this" by simp
    with assms(1) show ?thesis by simp
  qed
qed

lemma previous_not_in_document:
  assumes "od_operation p = k"
    and "\<forall>d\<in>set defs. \<not> is_operation_of k d"
    and "\<forall>d\<in>set defs. def_ref d = od_ref p \<longrightarrow> d = OperationDefinition p"
  shows "od_ref p \<notin> def_ref ` set defs"
proof
  assume "od_ref p \<in> def_ref ` set defs"
  then obtain d where d: "d \<in> set defs" "def_ref d = od_ref p" by auto
  with assms(3) have "d = OperationDefinition p" by blast
  with assms(1) have "is_operation_of k d" by simp
  with assms(2) d(1) show False by blast
qed

text \<open>
  C3, as the code has it. Let the definitions of the document be distinct
  objects. If position \<open>i\<close> holds the first operation definition \<open>od\<close> of
  the component's kind, with at least one selection (as every parsed
  operation has): committing the empty selection list prints the document
  without position \<open>i\<close> and remembers \<open>od\<close>; committing a non-empty list
  prints the document with position \<open>i\<close> replaced by \<open>od\<close> carrying the
  new selections. If the document holds no operation definition of that kind,
  and neither the synthesized definition nor the remembered one is an object
  of the document: committing a non-empty list prints the document with a new
  operation definition put in front, carrying the new selections; it is built
  from the remembered definition when there is one, and from the freshly
  synthesized one (no name, no variables, no directives) only otherwise.
\<close>

theorem modifySelections_operation_lifecycle:
  assumes "distinct (map def_ref (definitions (parsedQuery this)))"
  shows "(\<forall>i od. i < length (definitions (parsedQuery this))
            \<and> definitions (parsedQuery this) ! i = OperationDefinition od
            \<and> od_operation od = rv_operation this
            \<and> (\<forall>j<i. \<not> is_operation_of (rv_operation this) (definitions (parsedQuery this) ! j))
            \<and> od_selections od \<noteq> []
          \<longrightarrow> modifySelections print r r' this [] =
                Inr (this\<lparr>previousOperationDef := Some od\<rparr>,
                     print ((parsedQuery this)
                       \<lparr>definitions := take i (definitions (parsedQuery this))
                                         @ drop (Suc i) (definitions (parsedQuery this))\<rparr>))
              \<and> (sels \<noteq> [] \<longrightarrow>
                   modifySelections print r r' this sels =
                     Inr (this,
                          print ((parsedQuery this)
                            \<lparr>definitions := (definitions (parsedQuery this))
                               [i := OperationDefinition (od\<lparr>od_ref := r', od_selections := sels\<rparr>)]\<rparr>))))
       \<and> ((\<forall>d\<in>set (definitions (parsedQuery this)). \<not> is_operation_of (rv_operation this) d)
            \<and> sels \<noteq> []
            \<and> r \<notin> def_ref ` set (definitions (parsedQuery this))
            \<and> (\<forall>p. previousOperationDef this = Some p
                   \<longrightarrow> od_ref p \<notin> def_ref ` set (definitions (parsedQuery this)))
          \<longrightarrow> modifySelections print r r' this sels =
                Inr (this,
                     print ((parsedQuery this)
                       \<lparr>definitions :=
                          OperationDefinition
                            ((case previousOperationDef this of
                                Some p \<Rightarrow> p
                              | None \<Rightarrow> synthesized r (rv_operation this))
                             \<lparr>od_ref := r', od_selections := sels\<rparr>)
                          # definitions (parsedQuery this)\<rparr>)))"
proof (intro conjI allI impI)
  fix i od
  assume a: "i < length (definitions (parsedQuery this))
            \<and> definitions (parsedQuery this) ! i = OperationDefinition od
            \<and> od_operation od = rv_operation this
            \<and> (\<forall>j<i. \<not> is_operation_of (rv_operation this) (definitions (parsedQuery this) ! j))
            \<and> od_selections od \<noteq> []"
  let ?defs = "definitions (parsedQuery this)"
  have loc: "getOperationDef r this (parsedQuery this) = Inr od"
    using a by (intro getOperationDef_found [of i]) auto
  have ref: "od_ref od = def_ref (?defs ! i)" using a by simp
  have "od = (case previousOperationDef this of
               Some p \<Rightarrow> if od_selections od = [] then p else od
             | None \<Rightarrow> od)"
    using a by (simp split: option.split)
  note ms = modifySelections_unfold [OF loc this]
  have flt: "filter (\<lambda>d. def_ref d \<noteq> od_ref od) ?defs = take i ?defs @ drop (Suc i) ?defs"
    using filter_distinct_nth [OF assms, of i] a by simp
  show "modifySelections print r r' this [] =
          Inr (this\<lparr>previousOperationDef := Some od\<rparr>,
               print ((parsedQuery this)\<lparr>definitions := take i ?defs @ drop (Suc i) ?defs\<rparr>))"
    by (simp add: ms flt)
  have "i < length ?defs" using a by simp
  then have "?defs ! i \<in> set ?defs" by (rule nth_mem)
  then have ex: "list_ex (\<lambda>op. def_ref op = od_ref od) ?defs"
    unfolding list_ex_iff using ref by metis
  have mp: "\<And>y. map (\<lambda>op. if def_ref op = od_ref od then y else op) ?defs = ?defs[i := y]"
    using map_distinct_nth [OF assms, of i] a by simp
  show "modifySelections print r r' this sels =
          Inr (this,
               print ((parsedQuery this)
                 \<lparr>definitions := ?defs
                    [i := OperationDefinition (od\<lparr>od_ref := r', od_selections := sels\<rparr>)]\<rparr>))"
    if "sels \<noteq> []"
    using that by (simp add: ms ex mp)
next
  let ?defs = "definitions (parsedQuery this)"
  let ?syn = "synthesized r (rv_operation this)"
  assume a: "(\<forall>d\<in>set ?defs. \<not> is_operation_of (rv_operation this) d)
            \<and> sels \<noteq> []
            \<and> r \<notin> def_ref ` set ?defs
            \<and> (\<forall>p. previousOperationDef this = Some p \<longrightarrow> od_ref p \<notin> def_ref ` set ?defs)"
  have loc: "getOperationDef r this (parsedQuery this) = Inr ?syn"
    using a by (intro getOperationDef_absent) auto
  let ?base = "case previousOperationDef this of Some p \<Rightarrow> p | None \<Rightarrow> ?syn"
  have fresh: "od_ref ?base \<notin> def_ref ` set ?defs"
    using a by (cases "previousOperationDef this") (simp_all add: synthesized_def)
  then have nex: "\<not> list_ex (\<lambda>op. def_ref op = od_ref ?base) ?defs"
    unfolding list_ex_iff by (metis imageI)
  have mp: "\<And>y. map (\<lambda>op. if def_ref op = od_ref ?base then y else op) ?defs = ?defs"
    using fresh by (rule map_absent_unchanged)
  have "?base = (case previousOperationDef this of
                  Some p \<Rightarrow> if od_selections ?syn = [] then p else ?syn
                | None \<Rightarrow> ?syn)"
    by (simp add: synthesized_def split: option.split)
  note ms = modifySelections_unfold [OF loc this]
  have "sels \<noteq> []" using a by simp
  then show "modifySelections print r r' this sels =
      Inr (this,
           print ((parsedQuery this)
             \<lparr>definitions :=
                OperationDefinition (?base\<lparr>od_ref := r', od_selections := sels\<rparr>) # ?defs\<rparr>))"
    using nex mp by (simp add: ms)
qed

theorem modifySelections_operation_lifecycle_witness:
  "distinct (map def_ref (definitions ex_doc))
   \<and> 1 < length (definitions ex_doc)
   \<and> definitions ex_doc ! 1 = OperationDefinition ex_query
   \<and> od_operation ex_query = Query
   \<and> \<not> is_operation_of Query (definitions ex_doc ! 0)
   \<and> od_selections ex_query \<noteq> []
   \<and> modifySelections (\<lambda>d. d) 30 31
        \<lparr>rv_operation = Query, parsedQuery = ex_doc, previousOperationDef = None\<rparr> [] =
       Inr (\<lparr>rv_operation = Query, parsedQuery = ex_doc, previousOperationDef = Some ex_query\<rparr>,
            \<lparr>definitions = [FragmentDefinition 20 ''F'' ''B'' None [ex_node_a],
                             OperationDefinition ex_mutation]\<rparr>)
   \<and> modifySelections (\<lambda>d. d) 30 31
        \<lparr>rv_operation = Query, parsedQuery = ex_doc, previousOperationDef = None\<rparr> [ex_node_a] =
       Inr (\<lparr>rv_operation = Query, parsedQuery = ex_doc, previousOperationDef = None\<rparr>,
            \<lparr>definitions = [FragmentDefinition 20 ''F'' ''B'' None [ex_node_a],
                             OperationDefinition (ex_query\<lparr>od_ref := 31, od_selections := [ex_node_a]\<rparr>),
                             OperationDefinition ex_mutation]\<rparr>)
   \<and> \<not> (\<exists>d\<in>set (definitions ex_doc). is_operation_of Subscription d)
   \<and> 30 \<notin> def_ref ` set (definitions ex_doc)
   \<and> od_ref ex_query \<notin> def_ref ` set (definitions \<lparr>definitions = [OperationDefinition ex_mutation]\<rparr>)
   \<and> modifySelections (\<lambda>d. d) 30 31
        \<lparr>rv_operation = Subscription, parsedQuery = ex_doc, previousOperationDef = None\<rparr>
        [ex_node_a] =
       Inr (\<lparr>rv_operation = Subscription, parsedQuery = ex_doc, previousOperationDef = None\<rparr>,
            \<lparr>definitions =
               OperationDefinition
                 \<lparr>od_ref = 31, od_operation = Subscription, od_name = None,
                  od_variableDefinitions = None, od_directives = None,
                  od_selections = [ex_node_a]\<rparr>
               # definitions ex_doc\<rparr>)
   \<and> modifySelections (\<lambda>d. d) 30 31
        \<lparr>rv_operation = Query, parsedQuery = \<lparr>definitions = [OperationDefinition ex_mutation]\<rparr>,
         previousOperationDef = Some ex_query\<rparr>
        [ex_node_a] =
       Inr (\<lparr>rv_operation = Query, parsedQuery = \<lparr>definitions = [OperationDefinition ex_mutation]\<rparr>,
             previousOperationDef = Some ex_query\<rparr>,
            \<lparr>definitions =
               [OperationDefinition (ex_query\<lparr>od_ref := 31, od_selections := [ex_node_a]\<rparr>),
                OperationDefinition ex_mutation]\<rparr>)"
  using modifySelections_operation_lifecycle
      [of "\<lparr>rv_operation = Query, parsedQuery = ex_doc, previousOperationDef = None\<rparr>"
          "\<lambda>d. d" 30 31 "[ex_node_a]", THEN conjunct1, rule_format, of 1 ex_query]
    modifySelections_operation_lifecycle
      [of "\<lparr>rv_operation = Subscription, parsedQuery = ex_doc, previousOperationDef = None\<rparr>"
          "\<lambda>d. d" 30 31 "[ex_node_a]", THEN conjunct2]
    modifySelections_operation_lifecycle
      [of "\<lparr>rv_operation = Query, parsedQuery = \<lparr>definitions = [OperationDefinition ex_mutation]\<rparr>,
             previousOperationDef = Some ex_query\<rparr>"
          "\<lambda>d. d" 30 31 "[ex_node_a]", THEN conjunct2]
  by (simp add: synthesized_def)

text \<open>
  C3 as stated has the definition put in front be the freshly synthesized
  one. It is not always: after the query \<open>Q\<close> has been removed and
  remembered, a commit on a document without a query restores the remembered
  definition, its name included, with the committed selections.
\<close>

theorem modifySelections_restores_remembered_counterexample:
  "modifySelections (\<lambda>d. d) 30 31
     \<lparr>rv_operation = Query, parsedQuery = \<lparr>definitions = [OperationDefinition ex_mutation]\<rparr>,
      previousOperationDef = Some ex_query\<rparr>
     [ex_node_a] =
    Inr (\<lparr>rv_operation = Query, parsedQuery = \<lparr>definitions = [OperationDefinition ex_mutation]\<rparr>,
          previousOperationDef = Some ex_query\<rparr>,
         \<lparr>definitions =
            [OperationDefinition (ex_query\<lparr>od_ref := 31, od_selections := [ex_node_a]\<rparr>),
             OperationDefinition ex_mutation]\<rparr>)
   \<and> modifySelections (\<lambda>d. d) 30 31
     \<lparr>rv_operation = Query, parsedQuery = \<lparr>definitions = [OperationDefinition ex_mutation]\<rparr>,
      previousOperationDef = Some ex_query\<rparr>
     [ex_node_a] \<noteq>
    Inr (\<lparr>rv_operation = Query, parsedQuery = \<lparr>definitions = [OperationDefinition ex_mutation]\<rparr>,
          previousOperationDef = Some ex_query\<rparr>,
         \<lparr>definitions =
            [OperationDefinition ((synthesized 30 Query)\<lparr>od_ref := 31, od_selections := [ex_node_a]\<rparr>),
             OperationDefinition ex_mutation]\<rparr>)
   \<and> od_name (ex_query\<lparr>od_ref := 31, od_selections := [ex_node_a]\<rparr>) = Some ''Q''
   \<and> od_name ((synthesized 30 Query)\<lparr>od_ref := 31, od_selections := [ex_node_a]\<rparr>) = None"
  by (simp add: modifySelections_def getOperationDef_def synthesized_def Let_def)

section \<open>Properties of the default-selection policy\<close>

lemma has_field_iff: "has_field fieldMap k \<longleftrightarrow> k \<in> fst ` set fieldMap"
  by (simp add: has_field_def map_of_eq_None_iff)

lemma leaf_names_fold:
  "fold (\<lambda>(fieldName, f) leafFieldNames.
           if isLeafType (field_type f) then leafFieldNames @ [fieldName] else leafFieldNames)
     fieldMap acc
   = acc @ map fst (filter (\<lambda>(n, f). isLeafType (field_type f)) fieldMap)"
  by (induction fieldMap arbitrary: acc) (auto simp: case_prod_unfold)

text \<open>
  C2, as the code has it. The policy returns, by first matching rule:
  \<open>id\<close> followed by \<open>email\<close> if present, else by \<open>name\<close> if present, when
  there is a field \<open>id\<close>; else \<open>edges\<close>, \<open>node\<close>, \<open>nodes\<close>, in this
  order of preference, when such a field exists; else the first two fields,
  in declared order, whose declared type is itself a Scalar or Enum type. A
  field whose type is a List or NonNull around a scalar is not among them.
\<close>

theorem defaultGetDefaultFieldNames_policy:
  "defaultGetDefaultFieldNames type = amended_default_field_names type"
  by (simp add: defaultGetDefaultFieldNames_def amended_default_field_names_def Let_def
      has_field_iff leaf_names_fold)

text \<open>
  C2 as stated, with unwrapping in the last rule, is not what the code
  computes: on \<open>{a: String!, b: Int, c: [Int], d: Boolean}\<close> the code
  selects \<open>b\<close> and \<open>d\<close>, the policy with unwrapping \<open>a\<close> and \<open>b\<close>.
\<close>

theorem defaultGetDefaultFieldNames_no_unwrap_counterexample:
  "defaultGetDefaultFieldNames ex_type = [''b'', ''d'']
   \<and> claimed_default_field_names ex_type = [''a'', ''b'']
   \<and> defaultGetDefaultFieldNames ex_type \<noteq> claimed_default_field_names ex_type"
  by (simp add: defaultGetDefaultFieldNames_def claimed_default_field_names_def Let_def
      has_field_def isLeafType_def unwrapOutputType.simps isWrappingType_def)

section \<open>Properties of the leaf-value encoder\<close>

lemma try_catch_Inr [simp]: "try_catch (Inr v) h = Inr v"
  by (simp add: try_catch_def)

lemma try_catch_Inl [simp]: "try_catch (Inl e) h = h e"
  by (simp add: try_catch_def)

lemma try_catch_total:
  assumes "\<And>e. \<exists>v. h e = Inr v"
  shows "\<exists>v. try_catch body h = Inr v"
  using assms by (cases body) simp_all

lemma argValue_scalar_returns:
  assumes "isScalarType argType"
  shows "\<exists>node. argValue env argType v = Inr node"
  using assms by (simp add: argValue_def try_catch_total)

lemma argValue_enum_returns:
  assumes "isEnumType argType" and "getValues argType = first # rest"
  shows "\<exists>node. argValue env argType v = Inr node"
proof -
  have "\<not> isScalarType argType" using assms(1) by (cases argType) simp_all
  moreover have "first_value_name argType = Inr first"
    using assms(2) by (simp add: first_value_name_def)
  ultimately show ?thesis by (simp add: argValue_def try_catch_total)
qed

lemma argValue_numeric_failure:
  assumes "isScalarType argType"
    and "type_name argType = Some ''Int'' \<or> type_name argType = Some ''Float''"
    and "parseValue env argType v = Inl e"
  shows "argValue env argType v = Inr (StringValue v)"
  using assms by (auto simp: argValue_def parsed_literal_def)

lemma argValue_boolean:
  assumes "isScalarType argType" and "type_name argType = Some ''Boolean''"
  shows "argValue env argType v =
           Inr (BooleanValue (case JSON_parse env v of Inr (JSBoolean b) \<Rightarrow> b | _ \<Rightarrow> False))"
  using assms
  by (simp add: argValue_def split: sum.split js_value.split)

lemma argValue_enum_fallback:
  assumes "isEnumType argType" and "getValues argType = first # rest"
    and "case parseValue env argType v of Inl e \<Rightarrow> True | Inr parsed \<Rightarrow> \<not> truthy parsed"
  shows "argValue env argType v = Inr (EnumValue first)"
proof -
  have "\<not> isScalarType argType" using assms(1) by (cases argType) simp_all
  moreover have "first_value_name argType = Inr first"
    using assms(2) by (simp add: first_value_name_def)
  ultimately show ?thesis using assms(3)
    by (simp add: argValue_def split: sum.splits)
qed

text \<open>
  C6. For a leaf type, an enum having at least one declared value,
  \<open>argValue\<close> returns a literal on every raw input, whatever
  \<open>parseValue\<close> and \<open>JSON.parse\<close> do. For the scalars \<open>Int\<close> and
  \<open>Float\<close>, a \<open>parseValue\<close> that throws yields the String literal of the
  raw text. For the scalar \<open>Boolean\<close>, the result is the Boolean literal
  that \<open>JSON.parse\<close> of the raw text yields when it is a boolean, and the
  literal \<open>false\<close> in every other case, a throw included. For an enum, a
  \<open>parseValue\<close> that throws or returns a falsy value yields the first
  declared value.
\<close>

theorem argValue_total_with_fallbacks:
  assumes "isLeafType argType"
    and "isEnumType argType \<longrightarrow> getValues argType \<noteq> []"
  shows "(\<exists>node. argValue env argType v = Inr node)
     \<and> (\<forall>e. isScalarType argType
             \<and> (type_name argType = Some ''Int'' \<or> type_name argType = Some ''Float'')
             \<and> parseValue env argType v = Inl e
           \<longrightarrow> argValue env argType v = Inr (StringValue v))
     \<and> (isScalarType argType \<and> type_name argType = Some ''Boolean''
           \<longrightarrow> (\<forall>b. JSON_parse env v = Inr (JSBoolean b)
                      \<longrightarrow> argValue env argType v = Inr (BooleanValue b))
             \<and> ((\<forall>b. JSON_parse env v \<noteq> Inr (JSBoolean b))
                      \<longrightarrow> argValue env argType v = Inr (BooleanValue False)))
     \<and> (isEnumType argType
           \<and> (case parseValue env argType v of Inl e \<Rightarrow> True | Inr parsed \<Rightarrow> \<not> truthy parsed)
           \<longrightarrow> (\<exists>first rest. getValues argType = first # rest
                    \<and> argValue env argType v = Inr (EnumValue first)))"
proof (intro conjI allI impI)
  show "\<exists>node. argValue env argType v = Inr node"
  proof (cases "isScalarType argType")
    case True
    then show ?thesis by (rule argValue_scalar_returns)
  next
    case False
    with assms(1) have en: "isEnumType argType" by (simp add: isLeafType_def)
    with assms(2) obtain first rest where "getValues argType = first # rest"
      by (cases "getValues argType") auto
    with en show ?thesis by (rule argValue_enum_returns)
  qed
next
  fix e
  assume "isScalarType argType
      \<and> (type_name argType = Some ''Int'' \<or> type_name argType = Some ''Float'')
      \<and> parseValue env argType v = Inl e"
  then show "argValue env argType v = Inr (StringValue v)"
    using argValue_numeric_failure by blast
next
  fix b
  assume "isScalarType argType \<and> type_name argType = Some ''Boolean''"
    and "JSON_parse env v = Inr (JSBoolean b)"
  then show "argValue env argType v = Inr (BooleanValue b)"
    by (simp add: argValue_boolean)
next
  assume "isScalarType argType \<and> type_name argType = Some ''Boolean''"
    and nb: "\<forall>b. JSON_parse env v \<noteq> Inr (JSBoolean b)"
  then have "argValue env argType v =
      Inr (BooleanValue (case JSON_parse env v of Inr (JSBoolean b) \<Rightarrow> b | _ \<Rightarrow> False))"
    by (simp add: argValue_boolean)
  moreover have "(case JSON_parse env v of Inr (JSBoolean b) \<Rightarrow> b | _ \<Rightarrow> False) = False"
    using nb by (simp split: sum.split js_value.split)
  ultimately show "argValue env argType v = Inr (BooleanValue False)" by simp
next
  assume a: "isEnumType argType
      \<and> (case parseValue env argType v of Inl e \<Rightarrow> True | Inr parsed \<Rightarrow> \<not> truthy parsed)"
  with assms(2) obtain first rest where fr: "getValues argType = first # rest"
    by (cases "getValues argType") auto
  with a have "argValue env argType v = Inr (EnumValue first)"
    by (intro argValue_enum_fallback [of _ _ rest]) auto
  with fr show "\<exists>first rest. getValues argType = first # rest
      \<and> argValue env argType v = Inr (EnumValue first)"
    by blast
qed

theorem argValue_total_with_fallbacks_witness:
  "isLeafType (ScalarType ''Int'') \<and> \<not> isEnumType (ScalarType ''Int'')
   \<and> parseValue ex_env (ScalarType ''Int'') ''abc'' = Inl (Thrown ''cannot represent value'')
   \<and> argValue ex_env (ScalarType ''Int'') ''abc'' = Inr (StringValue ''abc'')
   \<and> argValue ex_env (ScalarType ''Int'') ''10'' = Inr (IntValue ''10'')
   \<and> isLeafType (ScalarType ''Boolean'') \<and> \<not> isEnumType (ScalarType ''Boolean'')
   \<and> argValue ex_env (ScalarType ''Boolean'') ''notabool'' = Inr (BooleanValue False)
   \<and> argValue ex_env (ScalarType ''Boolean'') ''1'' = Inr (BooleanValue False)
   \<and> argValue ex_env (ScalarType ''Boolean'') ''true'' = Inr (BooleanValue True)
   \<and> isLeafType ex_enum \<and> isEnumType ex_enum \<and> getValues ex_enum \<noteq> []
   \<and> parseValue ex_env ex_enum ''PURPLE'' = Inl (Thrown ''cannot represent value'')
   \<and> argValue ex_env ex_enum ''PURPLE'' = Inr (EnumValue ''RED'')
   \<and> argValue ex_env ex_enum ''GREEN'' = Inr (EnumValue ''GREEN'')"
  using argValue_total_with_fallbacks [of "ScalarType ''Int''" ex_env "''abc''"]
    argValue_total_with_fallbacks [of "ScalarType ''Boolean''" ex_env "''notabool''"]
    argValue_total_with_fallbacks [of "ScalarType ''Boolean''" ex_env "''1''"]
    argValue_total_with_fallbacks [of "ScalarType ''Boolean''" ex_env "''true''"]
    argValue_total_with_fallbacks [of ex_enum ex_env "''PURPLE''"]
  by (simp add: isLeafType_def argValue_def parsed_literal_def first_value_name_def)

section \<open>Properties of the default-value generator\<close>

lemma unwrapInputType_simps [simp]:
  "unwrapInputType (ListType t) = unwrapInputType t"
  "unwrapInputType (NonNullType t) = unwrapInputType t"
  "unwrapInputType (ScalarType n) = ScalarType n"
  "unwrapInputType (EnumType n vs) = EnumType n vs"
  "unwrapInputType (ObjectType n) = ObjectType n"
  "unwrapInputType (InterfaceType n) = InterfaceType n"
  "unwrapInputType (UnionType n) = UnionType n"
  "unwrapInputType (InputObjectType n) = InputObjectType n"
  by (simp_all add: unwrapInputType.simps [of "ListType t"] unwrapInputType.simps [of "NonNullType t"]
      unwrapInputType.simps [of "ScalarType n"] unwrapInputType.simps [of "EnumType n vs"]
      unwrapInputType.simps [of "ObjectType n"] unwrapInputType.simps [of "InterfaceType n"]
      unwrapInputType.simps [of "UnionType n"] unwrapInputType.simps [of "InputObjectType n"]
      isWrappingType_def)

lemma defaultValue_scalar:
  assumes "isScalarType u"
  shows "\<exists>v. defaultValue u = Inr v \<and> default_literal u = Some v"
  using assms by (cases u) (simp_all add: defaultValue_def)

lemma defaultValue_enum:
  assumes "isEnumType u" and "getValues u \<noteq> []"
  shows "\<exists>v. defaultValue u = Inr v \<and> default_literal u = Some v"
proof -
  from assms obtain n first rest where "u = EnumType n (first # rest)"
    by (cases u; cases "getValues u") auto
  then show ?thesis by (simp add: defaultValue_def first_value_name_def)
qed

lemma default_literal_not_object: "default_literal u \<noteq> Some (ObjectValue nodes)"
  by (cases u rule: default_literal.cases) simp_all

lemma seeded_leaf:
  assumes "default_literal (unwrapInputType t) = Some v"
  shows "seeded S t v"
  using assms default_literal_not_object [of "unwrapInputType t"] by (cases v) simp_all

lemma seeded_object:
  assumes "unwrapInputType t = InputObjectType m"
    and "seeded_fields S (filter isRequiredInputField (map snd (S m))) sub"
  shows "seeded S t (ObjectValue sub)"
  using assms by simp

lemma loop_skip:
  assumes "\<not> isRequiredInputField f"
  shows "defaultInputObjectFields_loop d S nodes (f # rest)
         = defaultInputObjectFields_loop d S nodes rest"
  using assms by simp

lemma loop_leaf:
  assumes "isRequiredInputField f"
    and "\<not> isInputObjectType (unwrapInputType (arg_type f))"
    and "isLeafType (unwrapInputType (arg_type f))"
    and "defaultValue (unwrapInputType (arg_type f)) = Inr v"
  shows "defaultInputObjectFields_loop d S nodes (f # rest)
         = defaultInputObjectFields_loop d S (nodes @ [ObjectField (arg_name f) v]) rest"
  using assms by (simp add: Let_def)

lemma loop_nested:
  assumes "isRequiredInputField f"
    and "unwrapInputType (arg_type f) = InputObjectType m"
    and "defaultInputObjectFields d' S (map snd (S m)) = Some (Inr sub)"
  shows "defaultInputObjectFields_loop (Suc d') S nodes (f # rest)
         = defaultInputObjectFields_loop (Suc d') S
             (nodes @ [ObjectField (arg_name f) (ObjectValue sub)]) rest"
  using assms by (simp add: Let_def input_fields_of_def)

text \<open>The fields that a loop at depth \<open>d\<close> can default.\<close>

lemma loop_step:
  assumes nested: "\<And>m d'. d = Suc d' \<Longrightarrow> rank m < d \<Longrightarrow>
      \<exists>sub. defaultInputObjectFields d' S (map snd (S m)) = Some (Inr sub)
            \<and> seeded_fields S (filter isRequiredInputField (map snd (S m))) sub"
    and ok: "\<forall>f\<in>set fs. isRequiredInputField f \<longrightarrow>
      input_type_ok (arg_type f) \<and> rank_below rank d (arg_type f)"
  shows "\<exists>out. defaultInputObjectFields_loop d S nodes fs = Some (Inr (nodes @ out))
           \<and> seeded_fields S (filter isRequiredInputField fs) out"
  using ok
proof (induction fs arbitrary: nodes)
  case Nil
  then show ?case by simp
next
  case (Cons f rest)
  have rest_ok: "\<forall>g\<in>set rest. isRequiredInputField g \<longrightarrow>
      input_type_ok (arg_type g) \<and> rank_below rank d (arg_type g)"
    using Cons.prems by simp
  note IH = Cons.IH [OF rest_ok]
  show ?case
  proof (cases "isRequiredInputField f")
    case False
    then show ?thesis using IH [of nodes] by (simp del: defaultInputObjectFields_loop.simps add: loop_skip)
  next
    case True
    let ?u = "unwrapInputType (arg_type f)"
    from True Cons.prems have okf: "input_type_ok (arg_type f)"
      and below: "rank_below rank d (arg_type f)" by simp_all
    show ?thesis
    proof (cases "isInputObjectType ?u")
      case True
      then obtain m where u: "?u = InputObjectType m" by (cases ?u) simp_all
      with below have "rank m < d" by (simp add: rank_below_def)
      then obtain d' where d: "d = Suc d'" by (cases d) simp_all
      with \<open>rank m < d\<close> obtain sub where
        sub: "defaultInputObjectFields d' S (map snd (S m)) = Some (Inr sub)"
          "seeded_fields S (filter isRequiredInputField (map snd (S m))) sub"
        using nested by blast
      let ?node = "ObjectField (arg_name f) (ObjectValue sub)"
      from IH [of "nodes @ [?node]"] obtain out where
        out: "defaultInputObjectFields_loop d S (nodes @ [?node]) rest
                = Some (Inr ((nodes @ [?node]) @ out))"
          "seeded_fields S (filter isRequiredInputField rest) out"
        by blast
      have "defaultInputObjectFields_loop d S nodes (f # rest)
          = defaultInputObjectFields_loop d S (nodes @ [?node]) rest"
        unfolding d using \<open>isRequiredInputField f\<close> u sub(1) by (rule loop_nested)
      then have "defaultInputObjectFields_loop d S nodes (f # rest)
          = Some (Inr (nodes @ (?node # out)))"
        using out(1) by simp
      moreover have "seeded S (arg_type f) (ObjectValue sub)"
        using u sub(2) by (rule seeded_object)
      then have "seeded_fields S (filter isRequiredInputField (f # rest)) (?node # out)"
        using \<open>isRequiredInputField f\<close> out(2) by simp
      ultimately show ?thesis by blast
    next
      case False
      with okf have leaf: "isScalarType ?u \<or> (isEnumType ?u \<and> getValues ?u \<noteq> [])"
        by (simp add: input_type_ok_def)
      then obtain v where v: "defaultValue ?u = Inr v" "default_literal ?u = Some v"
        using defaultValue_scalar defaultValue_enum by blast
      from leaf have isleaf: "isLeafType ?u" by (auto simp: isLeafType_def)
      let ?node = "ObjectField (arg_name f) v"
      from IH [of "nodes @ [?node]"] obtain out where
        out: "defaultInputObjectFields_loop d S (nodes @ [?node]) rest
                = Some (Inr ((nodes @ [?node]) @ out))"
          "seeded_fields S (filter isRequiredInputField rest) out"
        by blast
      have "defaultInputObjectFields_loop d S nodes (f # rest)
          = defaultInputObjectFields_loop d S (nodes @ [?node]) rest"
        using \<open>isRequiredInputField f\<close> False isleaf v(1) by (rule loop_leaf)
      then have "defaultInputObjectFields_loop d S nodes (f # rest)
          = Some (Inr (nodes @ (?node # out)))"
        using out(1) by simp
      moreover have "seeded S (arg_type f) v" using v(2) by (rule seeded_leaf)
      then have "seeded_fields S (filter isRequiredInputField (f # rest)) (?node # out)"
        using \<open>isRequiredInputField f\<close> out(2) by simp
      ultimately show ?thesis by blast
    qed
  qed
qed

lemma rank_below_mono: "rank_below rank a t \<Longrightarrow> a \<le> b \<Longrightarrow> rank_below rank b t"
  by (auto simp: rank_below_def split: gql_type.splits)

lemma schema_ok_fields:
  assumes "schema_ok S rank" and "rank m \<le> d"
  shows "\<forall>f\<in>set (map snd (S m)). isRequiredInputField f \<longrightarrow>
      input_type_ok (arg_type f) \<and> rank_below rank d (arg_type f)"
proof (intro ballI impI)
  fix f assume "f \<in> set (map snd (S m))" and "isRequiredInputField f"
  with assms(1) have "input_type_ok (arg_type f)" and "rank_below rank (rank m) (arg_type f)"
    unfolding schema_ok_def by blast+
  with assms(2) show "input_type_ok (arg_type f) \<and> rank_below rank d (arg_type f)"
    using rank_below_mono by blast
qed

text \<open>
  On a schema without a cycle of required input fields,
  \<open>defaultInputObjectFields\<close> returns for an input object type as soon as
  the depth reaches the rank of the type.
\<close>

lemma defaultInputObjectFields_returns:
  assumes "schema_ok S rank"
  shows "rank m \<le> d \<Longrightarrow>
    \<exists>sub. defaultInputObjectFields d S (map snd (S m)) = Some (Inr sub)
          \<and> seeded_fields S (filter isRequiredInputField (map snd (S m))) sub"
proof (induction d arbitrary: m)
  case 0
  have ok: "\<forall>f\<in>set (map snd (S m)). isRequiredInputField f \<longrightarrow>
      input_type_ok (arg_type f) \<and> rank_below rank 0 (arg_type f)"
    using assms 0 by (rule schema_ok_fields)
  have "\<exists>out. defaultInputObjectFields_loop 0 S [] (map snd (S m)) = Some (Inr ([] @ out))
           \<and> seeded_fields S (filter isRequiredInputField (map snd (S m))) out"
    using _ ok by (rule loop_step) simp
  then show ?case by simp
next
  case (Suc d)
  have ok: "\<forall>f\<in>set (map snd (S m)). isRequiredInputField f \<longrightarrow>
      input_type_ok (arg_type f) \<and> rank_below rank (Suc d) (arg_type f)"
    using assms Suc.prems by (rule schema_ok_fields)
  have "\<exists>out. defaultInputObjectFields_loop (Suc d) S [] (map snd (S m)) = Some (Inr ([] @ out))
           \<and> seeded_fields S (filter isRequiredInputField (map snd (S m))) out"
    using _ ok
  proof (rule loop_step)
    fix k d'
    assume "Suc d = Suc d'" and "rank k < Suc d"
    then have "rank k \<le> d" and "d' = d" by simp_all
    then show "\<exists>sub. defaultInputObjectFields d' S (map snd (S k)) = Some (Inr sub)
            \<and> seeded_fields S (filter isRequiredInputField (map snd (S k))) sub"
      using Suc.IH [of k] by simp
  qed
  then show ?case by simp
qed

lemma args_loop_skip:
  assumes "\<not> isRequiredArgument a"
  shows "defaultArgs_loop d S args (a # rest) = defaultArgs_loop d S args rest"
  using assms by simp

lemma args_loop_leaf:
  assumes "isRequiredArgument a"
    and "\<not> isInputObjectType (unwrapInputType (arg_type a))"
    and "isLeafType (unwrapInputType (arg_type a))"
    and "defaultValue (unwrapInputType (arg_type a)) = Inr v"
  shows "defaultArgs_loop d S args (a # rest)
         = defaultArgs_loop d S (args @ [Argument (arg_name a) v]) rest"
  using assms by (simp add: Let_def)

lemma args_loop_nested:
  assumes "isRequiredArgument a"
    and "unwrapInputType (arg_type a) = InputObjectType m"
    and "defaultInputObjectFields d S (map snd (S m)) = Some (Inr sub)"
  shows "defaultArgs_loop d S args (a # rest)
         = defaultArgs_loop d S (args @ [Argument (arg_name a) (ObjectValue sub)]) rest"
  using assms by (simp add: Let_def input_fields_of_def)

lemma defaultArgs_loop_returns:
  assumes "schema_ok S rank"
    and "\<forall>a\<in>set as. isRequiredArgument a \<longrightarrow>
           input_type_ok (arg_type a) \<and> rank_below rank (Suc d) (arg_type a)"
  shows "\<exists>out. defaultArgs_loop d S args as = Some (Inr (args @ out))
           \<and> list_all2 (\<lambda>a node. an_name node = arg_name a \<and> seeded S (arg_type a) (an_value node))
                 (filter isRequiredArgument as) out"
  using assms(2)
proof (induction as arbitrary: args)
  case Nil
  then show ?case by simp
next
  case (Cons a rest)
  let ?R = "\<lambda>a node. an_name node = arg_name a \<and> seeded S (arg_type a) (an_value node)"
  have rest_ok: "\<forall>b\<in>set rest. isRequiredArgument b \<longrightarrow>
      input_type_ok (arg_type b) \<and> rank_below rank (Suc d) (arg_type b)"
    using Cons.prems by simp
  note IH = Cons.IH [OF rest_ok]
  show ?case
  proof (cases "isRequiredArgument a")
    case False
    then show ?thesis using IH [of args] by (simp del: defaultArgs_loop.simps add: args_loop_skip)
  next
    case True
    let ?u = "unwrapInputType (arg_type a)"
    from True Cons.prems have oka: "input_type_ok (arg_type a)"
      and below: "rank_below rank (Suc d) (arg_type a)" by simp_all
    show ?thesis
    proof (cases "isInputObjectType ?u")
      case True
      then obtain m where u: "?u = InputObjectType m" by (cases ?u) simp_all
      with below have "rank m \<le> d" by (simp add: rank_below_def)
      then obtain sub where
        sub: "defaultInputObjectFields d S (map snd (S m)) = Some (Inr sub)"
          "seeded_fields S (filter isRequiredInputField (map snd (S m))) sub"
        using defaultInputObjectFields_returns [OF assms(1)] by blast
      let ?node = "Argument (arg_name a) (ObjectValue sub)"
      from IH [of "args @ [?node]"] obtain out where
        out: "defaultArgs_loop d S (args @ [?node]) rest = Some (Inr ((args @ [?node]) @ out))"
          "list_all2 ?R (filter isRequiredArgument rest) out"
        by blast
      have "defaultArgs_loop d S args (a # rest) = defaultArgs_loop d S (args @ [?node]) rest"
        using \<open>isRequiredArgument a\<close> u sub(1) by (rule args_loop_nested)
      then have "defaultArgs_loop d S args (a # rest) = Some (Inr (args @ (?node # out)))"
        using out(1) by simp
      moreover have "seeded S (arg_type a) (ObjectValue sub)"
        using u sub(2) by (rule seeded_object)
      then have "list_all2 ?R (filter isRequiredArgument (a # rest)) (?node # out)"
        using \<open>isRequiredArgument a\<close> out(2) by simp
      ultimately show ?thesis by blast
    next
      case False
      with oka have leaf: "isScalarType ?u \<or> (isEnumType ?u \<and> getValues ?u \<noteq> [])"
        by (simp add: input_type_ok_def)
      then obtain v where v: "defaultValue ?u = Inr v" "default_literal ?u = Some v"
        using defaultValue_scalar defaultValue_enum by blast
      from leaf have isleaf: "isLeafType ?u" by (auto simp: isLeafType_def)
      let ?node = "Argument (arg_name a) v"
      from IH [of "args @ [?node]"] obtain out where
        out: "defaultArgs_loop d S (args @ [?node]) rest = Some (Inr ((args @ [?node]) @ out))"
          "list_all2 ?R (filter isRequiredArgument rest) out"
        by blast
      have "defaultArgs_loop d S args (a # rest) = defaultArgs_loop d S (args @ [?node]) rest"
        using \<open>isRequiredArgument a\<close> False isleaf v(1) by (rule args_loop_leaf)
      then have "defaultArgs_loop d S args (a # rest) = Some (Inr (args @ (?node # out)))"
        using out(1) by simp
      moreover have "seeded S (arg_type a) v" using v(2) by (rule seeded_leaf)
      then have "list_all2 ?R (filter isRequiredArgument (a # rest)) (?node # out)"
        using \<open>isRequiredArgument a\<close> out(2) by simp
      ultimately show ?thesis by blast
    qed
  qed
qed

lemma rank_bound_exists: "\<exists>b. \<forall>a\<in>set as. rank_below rank b (arg_type a)"
proof (induction as)
  case Nil
  then show ?case by simp
next
  case (Cons a rest)
  then obtain b where b: "\<forall>x\<in>set rest. rank_below rank b (arg_type x)" by blast
  obtain c where c: "rank_below rank c (arg_type a)"
    by (cases "unwrapInputType (arg_type a)") (auto simp: rank_below_def)
  have "\<forall>x\<in>set (a # rest). rank_below rank (max b c) (arg_type x)"
    using b c rank_below_mono [of rank b _ "max b c"] rank_below_mono [of rank c _ "max b c"]
    by auto
  then show ?case by blast
qed

text \<open>The seed of a type is unique.\<close>

lemma seeded_literal:
  assumes "default_literal (unwrapInputType t) = Some v" and "seeded S t v'"
  shows "v' = v"
proof (cases v')
  case (ObjectValue ns)
  with assms show ?thesis by (cases "unwrapInputType t") simp_all
qed (use assms in simp_all)

lemma seeded_functional:
  "seeded S t v \<longrightarrow> (\<forall>v'. seeded S t v' \<longrightarrow> v' = v)"
  "seeded_fields S fs nodes \<longrightarrow> (\<forall>nodes'. seeded_fields S fs nodes' \<longrightarrow> nodes' = nodes)"
proof (induction S t v and S fs nodes rule: seeded_seeded_fields.induct)
  fix S :: schema and t :: gql_type and nodes :: "object_field_node list"
  assume IH: "\<And>n. unwrapInputType t = InputObjectType n \<Longrightarrow>
      seeded_fields S (filter isRequiredInputField (map snd (S n))) nodes \<longrightarrow>
      (\<forall>nodes'. seeded_fields S (filter isRequiredInputField (map snd (S n))) nodes'
          \<longrightarrow> nodes' = nodes)"
  show "seeded S t (ObjectValue nodes) \<longrightarrow> (\<forall>v'. seeded S t v' \<longrightarrow> v' = ObjectValue nodes)"
  proof (intro impI allI)
    fix v'
    assume a: "seeded S t (ObjectValue nodes)" and b: "seeded S t v'"
    from a obtain n where n: "unwrapInputType t = InputObjectType n"
      by (cases "unwrapInputType t") simp_all
    with b obtain nodes' where v': "v' = ObjectValue nodes'"
      by (cases v') simp_all
    from a b n v' have "seeded_fields S (filter isRequiredInputField (map snd (S n))) nodes"
      and "seeded_fields S (filter isRequiredInputField (map snd (S n))) nodes'"
      by simp_all
    with IH [OF n] have "nodes' = nodes" by blast
    with v' show "v' = ObjectValue nodes" by simp
  qed
next
  fix S :: schema
  show "seeded_fields S [] [] \<longrightarrow> (\<forall>nodes'. seeded_fields S [] nodes' \<longrightarrow> nodes' = [])"
  proof (intro impI allI)
    fix nodes' assume "seeded_fields S [] nodes'"
    then show "nodes' = []" by (cases nodes') simp_all
  qed
next
  fix S :: schema and f :: input_field and fs :: "input_field list"
    and n :: string and v :: value_node and nodes :: "object_field_node list"
  assume IH1: "seeded S (arg_type f) v \<longrightarrow> (\<forall>v'. seeded S (arg_type f) v' \<longrightarrow> v' = v)"
    and IH2: "seeded_fields S fs nodes \<longrightarrow>
      (\<forall>nodes'. seeded_fields S fs nodes' \<longrightarrow> nodes' = nodes)"
  show "seeded_fields S (f # fs) (ObjectField n v # nodes) \<longrightarrow>
      (\<forall>nodes'. seeded_fields S (f # fs) nodes' \<longrightarrow> nodes' = ObjectField n v # nodes)"
  proof (intro impI allI)
    fix nodes'
    assume a: "seeded_fields S (f # fs) (ObjectField n v # nodes)"
      and b: "seeded_fields S (f # fs) nodes'"
    from b obtain n' v' rest where nodes': "nodes' = ObjectField n' v' # rest"
    proof (cases nodes')
      case Nil
      with b show ?thesis by simp
    next
      case (Cons x rest)
      then show ?thesis using that by (cases x) simp
    qed
    from a have a': "n = arg_name f" "seeded S (arg_type f) v" "seeded_fields S fs nodes"
      by simp_all
    from b nodes' have b': "n' = arg_name f" "seeded S (arg_type f) v'" "seeded_fields S fs rest"
      by simp_all
    from IH1 IH2 a' b' have "v' = v" and "rest = nodes" by blast+
    with a' b' nodes' show "nodes' = ObjectField n v # nodes" by simp
  qed
qed (auto dest: seeded_literal)

lemma seeded_args_functional:
  assumes "list_all2 (\<lambda>a node. an_name node = arg_name a \<and> seeded S (arg_type a) (an_value node))
             as xs"
    and "list_all2 (\<lambda>a node. an_name node = arg_name a \<and> seeded S (arg_type a) (an_value node))
             as ys"
  shows "xs = ys"
  using assms
proof (induction as arbitrary: xs ys)
  case Nil
  then show ?case by simp
next
  case (Cons a rest)
  from Cons.prems obtain x xs' y ys' where xy: "xs = x # xs'" "ys = y # ys'"
    by (auto simp: list_all2_Cons1)
  with Cons.prems have "an_name x = an_name y" and "an_value x = an_value y"
    using seeded_functional(1) [of S "arg_type a" "an_value x"] by auto
  then have "x = y" by (cases x; cases y) simp
  moreover have "xs' = ys'" using Cons.IH [of xs' ys'] Cons.prems xy by simp
  ultimately show ?case using xy by simp
qed

text \<open>
  C5, as the code has it. Let the required input fields of the schema form
  no cycle, a required field leading to the type it unwraps to through
  NonNull and List alike (so \<open>input Loop {next: [Loop!]!}\<close> is a cycle,
  though GraphQL admits it), and let the types of required arguments and
  required input fields unwrap to a scalar, an enum with at least one value,
  or an input object type. Then \<open>defaultArgs\<close> returns one and the same argument list
  at every depth from some depth on. The list has one argument for each
  required argument of the field, in declared order, and no other argument;
  the value of each is the seed of the argument's type: the default literal
  of a leaf type, and for an input object type an ObjectValue defaulted in
  the same way. Adding the field with an empty undo slot appends a Field node
  with exactly these arguments, no alias, no directives and no selection set;
  with a node in the undo slot, add appends that node and builds none.
\<close>

theorem defaultArgs_seeds_required_arguments:
  assumes "schema_ok S rank"
    and "\<forall>a\<in>set (field_args fld). isRequiredArgument a \<longrightarrow> input_type_ok (arg_type a)"
  shows "\<exists>d0 args.
           list_all2 (\<lambda>a node. an_name node = arg_name a \<and> seeded S (arg_type a) (an_value node))
             (filter isRequiredArgument (field_args fld)) args
         \<and> (\<forall>depth\<ge>d0.
               defaultArgs depth S fld = Some (Inr args)
             \<and> (\<forall>r this. field this = fld \<and> previousSelection this = None \<longrightarrow>
                   addFieldToSelections depth S r this =
                     Some (Inr (this, selections this
                                  @ [FieldNode r None (Some args) None (field_name fld) None])))
             \<and> (\<forall>r this p. field this = fld \<and> previousSelection this = Some p \<longrightarrow>
                   addFieldToSelections depth S r this =
                     Some (Inr (this, selections this @ [p]))))"
proof -
  let ?R = "\<lambda>a node. an_name node = arg_name a \<and> seeded S (arg_type a) (an_value node)"
  obtain b where b: "\<forall>a\<in>set (field_args fld). rank_below rank b (arg_type a)"
    using rank_bound_exists by blast
  have per_depth: "\<exists>args. defaultArgs depth S fld = Some (Inr args)
         \<and> list_all2 ?R (filter isRequiredArgument (field_args fld)) args"
    if "b \<le> depth" for depth
  proof -
    have "\<forall>a\<in>set (field_args fld). isRequiredArgument a \<longrightarrow>
        input_type_ok (arg_type a) \<and> rank_below rank (Suc depth) (arg_type a)"
      using assms(2) b that rank_below_mono [of rank b _ "Suc depth"] by auto
    with assms(1) obtain args where
      "defaultArgs_loop depth S [] (field_args fld) = Some (Inr ([] @ args))"
      "list_all2 ?R (filter isRequiredArgument (field_args fld)) args"
      using defaultArgs_loop_returns [of S rank "field_args fld" depth "[]"] by blast
    then show ?thesis by (auto simp: defaultArgs_def)
  qed
  from per_depth [of b] obtain args where
    args: "defaultArgs b S fld = Some (Inr args)"
      "list_all2 ?R (filter isRequiredArgument (field_args fld)) args"
    by blast
  have "defaultArgs depth S fld = Some (Inr args)
      \<and> (\<forall>r this. field this = fld \<and> previousSelection this = None \<longrightarrow>
            addFieldToSelections depth S r this =
              Some (Inr (this, selections this
                           @ [FieldNode r None (Some args) None (field_name fld) None])))
      \<and> (\<forall>r this p. field this = fld \<and> previousSelection this = Some p \<longrightarrow>
            addFieldToSelections depth S r this =
              Some (Inr (this, selections this @ [p])))"
    if "b \<le> depth" for depth
  proof -
    from per_depth [OF that] obtain args' where
      args': "defaultArgs depth S fld = Some (Inr args')"
        "list_all2 ?R (filter isRequiredArgument (field_args fld)) args'"
      by blast
    from args'(2) args(2) have "args' = args" by (rule seeded_args_functional)
    with args'(1) have da: "defaultArgs depth S fld = Some (Inr args)" by simp
    then show ?thesis by (simp add: addFieldToSelections_def)
  qed
  with args(2) show ?thesis by blast
qed

lemma ex_schema_ok: "schema_ok ex_schema ex_rank"
  unfolding schema_ok_def
proof (intro allI)
  fix n
  show "\<forall>f\<in>set (map snd (ex_schema n)). isRequiredInputField f \<longrightarrow>
          input_type_ok (arg_type f) \<and> rank_below ex_rank (ex_rank n) (arg_type f)"
  proof (cases "n = ''Filter''")
    case True
    then show ?thesis
      by (simp add: input_type_ok_def rank_below_def isRequiredInputField_def)
  next
    case False
    then show ?thesis
      by (cases "n = ''Inner''")
         (simp_all add: input_type_ok_def rank_below_def isRequiredInputField_def)
  qed
qed

theorem defaultArgs_seeds_required_arguments_witness:
  "schema_ok ex_schema ex_rank
   \<and> \<not> (\<exists>a\<in>set (field_args ex_search). isRequiredArgument a \<and> \<not> input_type_ok (arg_type a))
   \<and> defaultArgs 2 ex_schema ex_search = Some (Inr ex_search_args)
   \<and> list_all2 (\<lambda>a node. an_name node = arg_name a \<and> seeded ex_schema (arg_type a) (an_value node))
        (filter isRequiredArgument (field_args ex_search)) ex_search_args
   \<and> addFieldToSelections 2 ex_schema 9
        \<lparr>field = ex_search, selections = [ex_node_a], previousSelection = None\<rparr> =
       Some (Inr (\<lparr>field = ex_search, selections = [ex_node_a], previousSelection = None\<rparr>,
                  [ex_node_a, FieldNode 9 None (Some ex_search_args) None ''search'' None]))
   \<and> defaultArgs 0 ex_schema ex_search = None
   \<and> (\<exists>d0. \<forall>depth\<ge>d0. \<exists>args. defaultArgs depth ex_schema ex_search = Some (Inr args))"
proof -
  note inst = defaultArgs_seeds_required_arguments [of ex_schema ex_rank ex_search]
  have args: "defaultArgs 2 ex_schema ex_search = Some (Inr ex_search_args)"
    by (simp add: isRequiredArgument_def isRequiredInputField_def isLeafType_def defaultArgs_def
        defaultValue_def first_value_name_def input_fields_of_def Let_def)
  have none: "defaultArgs 0 ex_schema ex_search = None"
    by (simp add: isRequiredArgument_def isRequiredInputField_def isLeafType_def defaultArgs_def
        defaultValue_def first_value_name_def input_fields_of_def Let_def)
  have ok: "\<not> (\<exists>a\<in>set (field_args ex_search). isRequiredArgument a \<and> \<not> input_type_ok (arg_type a))"
    by (simp add: isRequiredArgument_def input_type_ok_def)
  have seeds: "list_all2 (\<lambda>a node. an_name node = arg_name a
        \<and> seeded ex_schema (arg_type a) (an_value node))
      (filter isRequiredArgument (field_args ex_search)) ex_search_args"
    by (simp add: isRequiredArgument_def isRequiredInputField_def)
  have add: "addFieldToSelections 2 ex_schema 9
        \<lparr>field = ex_search, selections = [ex_node_a], previousSelection = None\<rparr> =
       Some (Inr (\<lparr>field = ex_search, selections = [ex_node_a], previousSelection = None\<rparr>,
                  [ex_node_a, FieldNode 9 None (Some ex_search_args) None ''search'' None]))"
    by (simp add: addFieldToSelections_def args)
  from ok have "\<forall>a\<in>set (field_args ex_search). isRequiredArgument a \<longrightarrow> input_type_ok (arg_type a)"
    by blast
  with inst [OF ex_schema_ok] have "\<exists>d0. \<forall>depth\<ge>d0. \<exists>args.
      defaultArgs depth ex_schema ex_search = Some (Inr args)" by blast
  with ex_schema_ok ok args seeds add none show ?thesis by blast
qed

text \<open>
  The schema \<open>input Loop {next: [Loop!]!}\<close> is valid GraphQL, the list may
  be empty; but \<open>unwrapInputType\<close> strips the list, so for the generator the
  required field \<open>next\<close> leads from \<open>Loop\<close> back to \<open>Loop\<close>. No rank
  decreases along it, and the generator returns at no depth.
\<close>

lemma ex_cyclic_not_schema_ok: "\<not> schema_ok ex_cyclic rank"
proof
  assume "schema_ok ex_cyclic rank"
  then have "\<forall>f\<in>set (map snd (ex_cyclic ''Loop'')). isRequiredInputField f \<longrightarrow>
      input_type_ok (arg_type f) \<and> rank_below rank (rank ''Loop'') (arg_type f)"
    unfolding schema_ok_def by (rule spec)
  then show False by (simp add: isRequiredInputField_def rank_below_def)
qed

lemma ex_cyclic_never_returns:
  "defaultInputObjectFields depth ex_cyclic (map snd (ex_cyclic ''Loop'')) = None"
  by (induction depth) (simp_all add: isRequiredInputField_def input_fields_of_def)

lemma ex_walk_never_returns: "defaultArgs depth ex_cyclic ex_walk = None"
  using ex_cyclic_never_returns [of depth]
  by (simp add: defaultArgs_def isRequiredArgument_def input_fields_of_def)

text \<open>
  C5 as stated holds of every add on every schema. It fails for an add that
  finds a node in the undo slot: the node appended is the cached one, here
  with the optional argument \<open>c\<close> and none of the required arguments of
  \<open>search\<close>. And it fails, the undo slot being empty, on the schema
  \<open>input Loop {next: [Loop!]!}\<close>: adding \<open>walk(from: Loop!)\<close> returns at no
  depth, so no Field node is produced.
\<close>

theorem addFieldToSelections_cached_node_counterexample:
  "addFieldToSelections 2 ex_schema 9
     \<lparr>field = ex_search, selections = [ex_node_a], previousSelection = Some ex_cached_search\<rparr> =
    Some (Inr (\<lparr>field = ex_search, selections = [ex_node_a],
                previousSelection = Some ex_cached_search\<rparr>,
               [ex_node_a, ex_cached_search]))
   \<and> arguments ex_cached_search = Some [Argument ''c'' (StringValue ''hi'')]
   \<and> map arg_name (filter isRequiredArgument (field_args ex_search)) = [''a'', ''b'', ''d'', ''e'']
   \<and> \<not> list_all2 (\<lambda>a node. an_name node = arg_name a
                          \<and> seeded ex_schema (arg_type a) (an_value node))
         (filter isRequiredArgument (field_args ex_search))
         [Argument ''c'' (StringValue ''hi'')]
   \<and> map arg_name (filter isRequiredArgument (field_args ex_walk)) = [''from'']
   \<and> (\<forall>depth. addFieldToSelections depth ex_cyclic 9
          \<lparr>field = ex_walk, selections = [ex_node_a], previousSelection = None\<rparr> = None)"
proof -
  have "addFieldToSelections depth ex_cyclic 9
      \<lparr>field = ex_walk, selections = [ex_node_a], previousSelection = None\<rparr> = None" for depth
    using ex_walk_never_returns [of depth] by (simp add: addFieldToSelections_def)
  then show ?thesis by (simp add: addFieldToSelections_def isRequiredArgument_def)
qed

section \<open>Further properties\<close>

text \<open>
  \<open>_getOperationDef\<close> never reaches its \<open>throw\<close>: it returns an operation
  definition of the component's kind on every document.
\<close>

theorem getOperationDef_never_throws:
  "\<exists>od. getOperationDef r this doc = Inr od \<and> od_operation od = rv_operation this"
proof -
  obtain od where "getOperationDef r this doc = Inr od"
    using getOperationDef_returns by blast
  then show ?thesis using getOperationDef_kind by blast
qed

text \<open>\<open>_modifySelections\<close> returns on every document and selection list.\<close>

theorem modifySelections_never_throws:
  "\<exists>this' text. modifySelections print r r' this sels = Inr (this', text)"
proof -
  obtain located where loc: "getOperationDef r this (parsedQuery this) = Inr located"
    using getOperationDef_returns by blast
  show ?thesis
    using modifySelections_unfold [OF loc refl, of print r' sels] by (cases "sels = []") simp_all
qed

text \<open>\<open>parseQuery\<close> catches whatever the parser throws.\<close>

theorem parseQuery_never_throws:
  "\<exists>log' result. parseQuery parse log text = (log', Inr result)"
  by (cases "parse text") (simp_all add: parseQuery_def try_catch_def)

text \<open>The default-selection policy selects at most two fields.\<close>

theorem defaultGetDefaultFieldNames_at_most_two:
  "length (defaultGetDefaultFieldNames type) \<le> 2"
  by (simp add: defaultGetDefaultFieldNames_def Let_def)

text \<open>
  An add with a node in the undo slot does not call \<open>defaultArgs\<close>: it
  returns at every depth, on any schema.
\<close>

theorem add_reinserts_cached_node:
  "addFieldToSelections depth S r (this\<lparr>previousSelection := Some p\<rparr>)
     = Some (Inr (this\<lparr>previousSelection := Some p\<rparr>, selections this @ [p]))"
  by (simp add: addFieldToSelections_def)

text \<open>
  On an input object type with a required field that unwraps to its own
  type, here through a list, \<open>defaultInputObjectFields\<close> returns at no
  depth.
\<close>

theorem defaultInputObjectFields_cycle_never_returns:
  "\<forall>depth. defaultInputObjectFields depth ex_cyclic (map snd (ex_cyclic ''Loop'')) = None"
proof
  fix depth
  show "defaultInputObjectFields depth ex_cyclic (map snd (ex_cyclic ''Loop'')) = None"
    by (induction depth)
       (simp_all add: isRequiredInputField_def input_fields_of_def unwrapInputType_simps)
qed

end
